theory Spec2Isabelle
  imports Main "HOL-Library.Option_ord"
begin

section \<open>Python values and failures\<close>

text \<open>
  Atom keys are Python integers. A bond key is a \<open>frozenset\<close> of atom keys. Every
  exception the modelled functions can raise is a value of \<open>error\<close>; a function that can
  raise returns \<open>error + 'a\<close>, with \<open>Inl\<close> the exception.
\<close>

type_synonym atom_key = int
type_synonym bond_key = "int set"

datatype error = ValueError | AssertionError | StopIteration | KeyError | IndexError

text \<open>Sequencing of two computations that can raise: the first exception wins.\<close>

definition ebind :: "error + 'a \<Rightarrow> ('a \<Rightarrow> error + 'b) \<Rightarrow> error + 'b" where
  "ebind m f = (case m of Inl e \<Rightarrow> Inl e | Inr x \<Rightarrow> f x)"

text \<open>A \<open>for\<close> loop over a list that updates one variable and stops at the first exception.\<close>

fun efold :: "('a \<Rightarrow> 's \<Rightarrow> error + 's) \<Rightarrow> 'a list \<Rightarrow> 's \<Rightarrow> error + 's" where
  "efold f [] s = Inr s"
| "efold f (x # xs) s = (case f x s of Inl e \<Rightarrow> Inl e | Inr s' \<Rightarrow> efold f xs s')"

text \<open>The unpacking \<open>(x,) = s\<close> of a set: \<open>ValueError\<close> unless \<open>s\<close> has exactly one element.\<close>

definition unpack1 :: "int set \<Rightarrow> error + int" where
  "unpack1 s = (if card s = 1 then Inr (the_elem s) else Inl ValueError)"

text \<open>\<open>d[k]\<close> on a dictionary: \<open>KeyError\<close> for a missing key.\<close>

definition getitem :: "('k \<rightharpoonup> 'v) \<Rightarrow> 'k \<Rightarrow> error + 'v" where
  "getitem d k = (case d k of None \<Rightarrow> Inl KeyError | Some v \<Rightarrow> Inr v)"

section \<open>The graph query layer\<close>

text \<open>
  The modules under verification import the graph data structure and its queries from
  \<open>automol.graph.base._00core\<close>, \<open>_02algo\<close> and \<open>_03kekule\<close>, which are not part of the
  sources at hand. Graphs are therefore values of an arbitrary type \<open>'g\<close>, and the imported
  queries are the fields of a record that every modelled function takes as its first
  argument. A Python set of bond keys is given as the list of its elements in the order
  in which Python iterates over it; a dictionary that is iterated is given as the list of
  its items. \<open>set_iter\<close> is the order in which the Python run time iterates over a set of
  atom keys, which the language leaves open.
\<close>

datatype stereo_key = AKey atom_key | BKey bond_key

record 'g collab =
  set_iter :: "int set \<Rightarrow> int list"
  ts_breaking_bond_keys :: "'g \<Rightarrow> bond_key list"
  ts_forming_bond_keys :: "'g \<Rightarrow> bond_key list"
  ts_reverse :: "'g \<Rightarrow> 'g"
  reacting_rings_bond_keys :: "'g \<Rightarrow> bond_key list list"
  tetrahedral_atom_keys :: "'g \<Rightarrow> int set"
  without_dummy_atoms :: "'g \<Rightarrow> 'g"
  atom_implicit_hydrogens :: "'g \<Rightarrow> (int \<rightharpoonup> int)"
  local_stereo_priorities :: "'g \<Rightarrow> (int \<rightharpoonup> int)"
  ts_reactants_graph_without_stereo :: "'g \<Rightarrow> 'g"
  atom_neighbor_atom_keys :: "'g \<Rightarrow> int \<Rightarrow> int set"
  atoms_neighbor_atom_keys :: "'g \<Rightarrow> (int \<rightharpoonup> int set)"
  substitution_atom_transfers :: "'g \<Rightarrow> (int \<times> int \<times> int) list"
  core_atom_stereo_sorted_neighbor_keys :: "'g \<Rightarrow> int \<Rightarrow> error + int option list"
  core_bond_stereo_sorted_neighbor_keys ::
    "'g \<Rightarrow> int \<Rightarrow> int \<Rightarrow> (int \<rightharpoonup> int) \<Rightarrow> error + (int option list \<times> int option list)"
  stereo_parities :: "'g \<Rightarrow> (stereo_key \<rightharpoonup> bool option)"
  bond_stereo_keys :: "'g \<Rightarrow> bond_key set"
  forming_rings_atom_keys :: "'g \<Rightarrow> int set list"
  rigid_planar_bond_keys :: "'g \<Rightarrow> bond_key list"
  vinyl_radical_atom_bond_keys :: "'g \<Rightarrow> (int \<times> bond_key) list"
  sigma_radical_atom_bond_keys :: "'g \<Rightarrow> (int \<rightharpoonup> bond_key)"
  ts_reacting_atom_keys :: "'g \<Rightarrow> int set"
  ts_transferring_atoms :: "'g \<Rightarrow> (int \<rightharpoonup> int \<times> int)"

section \<open>Reaction-site classification (\<open>_04class.py\<close>)\<close>

subsection \<open>\<open>atom_transfers\<close>\<close>

text \<open>
  One pass of the loop body over a pair \<open>(brk_bkey, frm_bkey)\<close>: when the two bond keys
  share an atom, the three unpackings are made and the entry of the transferring atom is
  written, replacing an earlier one.
\<close>

definition transfer_step ::
  "bond_key \<times> bond_key \<Rightarrow> (int \<rightharpoonup> int \<times> int) \<Rightarrow> error + (int \<rightharpoonup> int \<times> int)" where
  "transfer_step p tra_dct =
     (case p of (brk_bkey, frm_bkey) \<Rightarrow>
        if brk_bkey \<inter> frm_bkey \<noteq> {} then
          ebind (unpack1 (brk_bkey \<inter> frm_bkey)) (\<lambda>tra_key.
          ebind (unpack1 (brk_bkey - frm_bkey)) (\<lambda>don_key.
          ebind (unpack1 (frm_bkey - brk_bkey)) (\<lambda>acc_key.
            Inr (tra_dct(tra_key \<mapsto> (don_key, acc_key))))))
        else Inr tra_dct)"

definition atom_transfers :: "'g collab \<Rightarrow> 'g \<Rightarrow> error + (int \<rightharpoonup> int \<times> int)" where
  "atom_transfers G tsg =
     (let brk_bkeys = ts_breaking_bond_keys G tsg;
          frm_bkeys = ts_forming_bond_keys G tsg
      in efold transfer_step (List.product brk_bkeys frm_bkeys) Map.empty)"

text \<open>
  Modelled from the spec: \<open>util.dict_.by_key\<close> is not among the sources; \<open>substitutions\<close>
  "filters atom-transfer result to atoms that are tetrahedral stereocenters", so the
  dictionary is restricted to the keys given.
\<close>

definition by_key :: "('k \<rightharpoonup> 'v) \<Rightarrow> 'k set \<Rightarrow> ('k \<rightharpoonup> 'v)" where
  "by_key dct keys = dct |` keys"

definition substitutions :: "'g collab \<Rightarrow> 'g \<Rightarrow> error + (int \<rightharpoonup> int \<times> int)" where
  "substitutions G tsg =
     ebind (atom_transfers G tsg) (\<lambda>tra_dct.
       let tra_keys = dom tra_dct;
           tet_keys = tetrahedral_atom_keys G tsg;
           subst_keys = tra_keys \<inter> tet_keys
       in Inr (by_key tra_dct subst_keys))"

subsection \<open>\<open>eliminations\<close> and \<open>insertions\<close>\<close>

text \<open>A loop that applies a function that can raise to every element, in order.\<close>

fun emap :: "('a \<Rightarrow> error + 'b) \<Rightarrow> 'a list \<Rightarrow> error + 'b list" where
  "emap f [] = Inr []"
| "emap f (x # xs) = ebind (f x) (\<lambda>y. ebind (emap f xs) (\<lambda>ys. Inr (y # ys)))"

text \<open>
  \<open>sorted(xs, key=key)\<close>: the keys are computed first, in order, and an exception of the
  key function is that of the call; the sort is stable.
\<close>

definition py_sorted :: "('a \<Rightarrow> error + 'k::linorder) \<Rightarrow> 'a list \<Rightarrow> error + 'a list" where
  "py_sorted key xs = ebind (emap key xs) (\<lambda>ks. Inr (map snd (sort_key fst (zip ks xs))))"

text \<open>The inner function \<open>is_elimination_bkey\<close> of \<open>is_elimination_bond_\<close>.\<close>

definition is_elimination_bkey :: "bond_key list \<Rightarrow> bond_key list \<Rightarrow> bond_key \<Rightarrow> bool" where
  "is_elimination_bkey brk_bkeys frm_bkeys bkey \<longleftrightarrow>
     list_all (\<lambda>bk. bkey \<inter> bk \<noteq> {}) brk_bkeys \<and> bkey \<notin> set frm_bkeys"

text \<open>\<open>next(iter(bkey1 & bkey2))\<close>: the first atom of the intersection in iteration order.\<close>

definition common_atom :: "(int set \<Rightarrow> int list) \<Rightarrow> bond_key \<Rightarrow> bond_key \<Rightarrow> error + int" where
  "common_atom it bkey1 bkey2 =
     (case it (bkey1 \<inter> bkey2) of [] \<Rightarrow> Inl StopIteration | k # _ \<Rightarrow> Inr k)"

text \<open>
  \<open>pool & rng_bkeys\<close> on the lists that stand for the two sets: the bonds of the pool that
  are in the ring, in the order of the pool. The lists that stand for sets have no repeated
  entries, so that \<open>len\<close> is \<open>length\<close>.
\<close>

definition inter_bkeys :: "bond_key list \<Rightarrow> bond_key list \<Rightarrow> bond_key list" where
  "inter_bkeys pool rng_bkeys = filter (\<lambda>b. b \<in> set rng_bkeys) pool"

text \<open>The body of the loop over the reacting rings.\<close>

definition elimination_step ::
  "'g collab \<Rightarrow> 'g \<Rightarrow> bond_key list \<Rightarrow> (bond_key \<rightharpoonup> int \<times> int \<times> bond_key option)
     \<Rightarrow> error + (bond_key \<rightharpoonup> int \<times> int \<times> bond_key option)" where
  "elimination_step G tsg rng_bkeys elim_dct =
     (let brk_bkeys = inter_bkeys (ts_breaking_bond_keys G tsg) rng_bkeys;
          frm_bkeys = inter_bkeys (ts_forming_bond_keys G tsg) rng_bkeys
      in if length brk_bkeys = 2 then
           (case find (is_elimination_bkey brk_bkeys frm_bkeys) rng_bkeys of
              None \<Rightarrow> Inr elim_dct
            | Some bkey \<Rightarrow>
                ebind (py_sorted (common_atom (set_iter G) bkey) brk_bkeys) (\<lambda>srt.
                  case srt of
                    [brk_bkey1, brk_bkey2] \<Rightarrow>
                      ebind (unpack1 (brk_bkey1 - bkey)) (\<lambda>lea_key1.
                      ebind (unpack1 (brk_bkey2 - bkey)) (\<lambda>lea_key2.
                        if length frm_bkeys \<le> 1 then
                          Inr (elim_dct(bkey \<mapsto>
                                 (lea_key1, lea_key2,
                                  case frm_bkeys of [] \<Rightarrow> None | frm_bkey # _ \<Rightarrow> Some frm_bkey)))
                        else Inl AssertionError))
                  | _ \<Rightarrow> Inl ValueError))
         else Inr elim_dct)"

definition eliminations ::
  "'g collab \<Rightarrow> 'g \<Rightarrow> error + (bond_key \<rightharpoonup> int \<times> int \<times> bond_key option)" where
  "eliminations G tsg = efold (elimination_step G tsg) (reacting_rings_bond_keys G tsg) Map.empty"

definition insertions ::
  "'g collab \<Rightarrow> 'g \<Rightarrow> error + (bond_key \<rightharpoonup> int \<times> int \<times> bond_key option)" where
  "insertions G tsg = eliminations G (ts_reverse G tsg)"

subsection \<open>\<open>atom_stereo_sorted_neighbor_keys\<close>\<close>

text \<open>
  Modelled from the spec: \<open>util.dict_.sort_value_\<close> is not among the sources; the model is
  named \<open>sort_value\<close>. The neighbour keys are sorted "ascending by priority value (missing
  priority sorts as \<open>-infinity\<close>, i.e., lowest)". A neighbour is an atom key or the
  placeholder \<open>None\<close> of an implicit hydrogen, which has no priority; the sort value \<open>None\<close>
  is the least element of \<open>int option\<close> and stands for \<open>-infinity\<close>.
\<close>

definition sort_value :: "(int \<rightharpoonup> int) \<Rightarrow> int option \<Rightarrow> int option" where
  "sort_value dct key = (case key of None \<Rightarrow> None | Some k \<Rightarrow> dct k)"

definition atom_stereo_sorted_neighbor_keys ::
  "'g collab \<Rightarrow> 'g \<Rightarrow> int \<Rightarrow> bool \<Rightarrow> (int \<rightharpoonup> int) option \<Rightarrow> error + int option list" where
  "atom_stereo_sorted_neighbor_keys G gra0 key self_apex pri_dct0 =
     (let gra = without_dummy_atoms G gra0;
          nhyd_dct = atom_implicit_hydrogens G gra;
          pri_dct = (case pri_dct0 of None \<Rightarrow> local_stereo_priorities G gra | Some d \<Rightarrow> d)
      in ebind (substitutions G gra) (\<lambda>subst_dct.
           let gra = (if key \<in> dom subst_dct then ts_reactants_graph_without_stereo G gra else gra);
               nkeys = map Some (set_iter G (atom_neighbor_atom_keys G gra key))
           in ebind (getitem nhyd_dct key) (\<lambda>nhyd.
                let nkeys = nkeys @ replicate (nat nhyd) None;
                    nkeys = sort_key (sort_value pri_dct) nkeys
                in if self_apex \<and> length nkeys < 4 then
                     (if length nkeys = 3 then Inr (Some key # nkeys) else Inl AssertionError)
                   else Inr nkeys)))"

section \<open>Local stereo parities and electron directions (\<open>_05ts.py\<close>)\<close>

subsection \<open>Permutation parity\<close>

text \<open>\<open>position xs v\<close> is the index of the first occurrence of \<open>v\<close> in \<open>xs\<close>.\<close>

definition position :: "'a list \<Rightarrow> 'a \<Rightarrow> nat" where
  "position xs v = length (takeWhile (\<lambda>x. x \<noteq> v) xs)"

text \<open>\<open>xs.index(v)\<close>: \<open>ValueError\<close> when \<open>v\<close> does not occur.\<close>

definition list_index :: "'a list \<Rightarrow> 'a \<Rightarrow> error + nat" where
  "list_index xs v = (if v \<in> set xs then Inr (position xs v) else Inl ValueError)"

text \<open>The pairs of entries that the two sequences put in opposite orders.\<close>

definition inversions :: "'a list \<Rightarrow> 'a list \<Rightarrow> ('a \<times> 'a) list" where
  "inversions seq1 seq2 =
     filter (\<lambda>(a, b). position seq1 a < position seq1 b \<and> position seq2 b < position seq2 a)
       (List.product seq1 seq1)"

text \<open>
  Modelled from the spec: \<open>util.is_even_permutation\<close> is not among the sources. The glossary
  has "Permutation parity: whether reordering one neighbor sequence into another requires
  an even or odd number of transpositions". That number has the parity of the number of
  inversions. The parity exists only when the second sequence is a reordering of the first
  and no entry is repeated; the spec does not say what the function does otherwise, and
  the model raises there.
\<close>

definition is_even_permutation :: "'a list \<Rightarrow> 'a list \<Rightarrow> error + bool" where
  "is_even_permutation seq1 seq2 =
     (if distinct seq1 \<and> distinct seq2 \<and> set seq1 = set seq2
      then Inr (even (length (inversions seq1 seq2)))
      else Inl ValueError)"

text \<open>
  Modelled from the spec: \<open>util.move_items_to_front\<close> is not among the sources. The entries
  named are moved "to the front of its neighbor list": they come first, in the order given,
  and the other entries follow in their old order.
\<close>

definition move_items_to_front :: "'a list \<Rightarrow> 'a list \<Rightarrow> 'a list" where
  "move_items_to_front lst items = items @ filter (\<lambda>l. l \<notin> set items) lst"

subsection \<open>\<open>sn2_local_stereo_reversal_flips\<close>\<close>

definition sn2_step ::
  "'g collab \<Rightarrow> 'g \<Rightarrow> int \<times> int \<times> int \<Rightarrow> (int \<rightharpoonup> bool) \<Rightarrow> error + (int \<rightharpoonup> bool)" where
  "sn2_step G tsg item rflip_dct =
     (case item of (tra_key, don_key, acc_key) \<Rightarrow>
        ebind (core_atom_stereo_sorted_neighbor_keys G tsg tra_key) (\<lambda>nks0.
        ebind (list_index nks0 (Some don_key)) (\<lambda>i.
          let nks0 = nks0[i := Some acc_key]
          in ebind (core_atom_stereo_sorted_neighbor_keys G (ts_reverse G tsg) tra_key) (\<lambda>nks1.
             ebind (is_even_permutation nks0 nks1) (\<lambda>rflip.
               Inr (rflip_dct(tra_key \<mapsto> rflip)))))))"

definition sn2_local_stereo_reversal_flips :: "'g collab \<Rightarrow> 'g \<Rightarrow> error + (int \<rightharpoonup> bool)" where
  "sn2_local_stereo_reversal_flips G tsg =
     efold (sn2_step G tsg) (substitution_atom_transfers G tsg) Map.empty"

subsection \<open>\<open>constrained_1_2_insertion_local_parities\<close>\<close>

text \<open>
  Modelled from the spec: \<open>util.dict_.filter_by_value\<close> is not among the sources. It is
  called with the test \<open>x is not None\<close>, to keep the atoms and bonds that "have a defined
  local parity".
\<close>

definition filter_by_value_not_none :: "('k \<rightharpoonup> 'v option) \<Rightarrow> ('k \<rightharpoonup> 'v)" where
  "filter_by_value_not_none dct k = (case dct k of Some (Some v) \<Rightarrow> Some v | _ \<Rightarrow> None)"

text \<open>
  \<open>(key0,) = next(k for k in frm_bkeys if key1 in k) - {key1}\<close>: the first forming bond at
  the atom, \<open>StopIteration\<close> when there is none, then the unpacking.
\<close>

definition forming_partner :: "bond_key list \<Rightarrow> int \<Rightarrow> error + int" where
  "forming_partner frm_bkeys key =
     (case find (\<lambda>k. key \<in> k) frm_bkeys of
        None \<Rightarrow> Inl StopIteration
      | Some k \<Rightarrow> unpack1 (k - {key}))"

text \<open>\<open>sorted(nkeys_dct[key], key=loc_pri_dct.__getitem__)\<close>.\<close>

definition priority_sorted_neighbors ::
  "'g collab \<Rightarrow> (int \<rightharpoonup> int set) \<Rightarrow> (int \<rightharpoonup> int) \<Rightarrow> int \<Rightarrow> error + int list" where
  "priority_sorted_neighbors G nkeys_dct loc_pri_dct key =
     ebind (getitem nkeys_dct key) (\<lambda>nkeys.
       py_sorted (getitem loc_pri_dct) (set_iter G nkeys))"

text \<open>The body of the loop over the rigid, planar bonds of the reactants graph.\<close>

definition constrained_step ::
  "'g collab \<Rightarrow> 'g \<Rightarrow> bond_key \<Rightarrow> (bond_key \<rightharpoonup> bool) \<Rightarrow> error + (bond_key \<rightharpoonup> bool)" where
  "constrained_step G loc_tsg bkey par_dct =
     (let loc_par_dct = filter_by_value_not_none (stereo_parities G loc_tsg);
          loc_pri_dct = local_stereo_priorities G loc_tsg;
          nkeys_dct = atoms_neighbor_atom_keys G loc_tsg;
          frm_bkeys = ts_forming_bond_keys G loc_tsg;
          rkeys_lst = forming_rings_atom_keys G loc_tsg
      in if (\<forall>k \<in> bkey. AKey k \<in> dom loc_par_dct) then
           (case set_iter G bkey of
              [key1, key2] \<Rightarrow>
                ebind (forming_partner frm_bkeys key1) (\<lambda>key0.
                ebind (forming_partner frm_bkeys key2) (\<lambda>key3.
                  let keys = {key0, key1, key2, key3}
                  in if list_ex (\<lambda>rkeys. keys \<inter> rkeys \<noteq> {}) rkeys_lst then
                       ebind (getitem loc_par_dct (AKey key1)) (\<lambda>p_a1.
                       ebind (getitem loc_par_dct (AKey key2)) (\<lambda>p_a2.
                       ebind (priority_sorted_neighbors G nkeys_dct loc_pri_dct key1) (\<lambda>nk1s.
                       ebind (priority_sorted_neighbors G nkeys_dct loc_pri_dct key2) (\<lambda>nk2s.
                         let srt_nk1s = move_items_to_front nk1s [key2, key0];
                             srt_nk2s = move_items_to_front nk2s [key1, key3]
                         in ebind (is_even_permutation nk1s srt_nk1s) (\<lambda>p_1.
                            ebind (is_even_permutation nk2s srt_nk2s) (\<lambda>p_2.
                              let p_b12 = (\<not> ((\<not> (p_a1 \<noteq> p_1)) \<noteq> (\<not> (p_a2 \<noteq> p_2))))
                              in Inr (par_dct(bkey \<mapsto> p_b12))))))))
                     else Inr par_dct))
            | _ \<Rightarrow> Inl ValueError)
         else Inr par_dct)"

definition constrained_1_2_insertion_local_parities ::
  "'g collab \<Rightarrow> 'g \<Rightarrow> error + (bond_key \<rightharpoonup> bool)" where
  "constrained_1_2_insertion_local_parities G loc_tsg =
     (let gra = ts_reactants_graph_without_stereo G loc_tsg
      in efold (constrained_step G loc_tsg) (rigid_planar_bond_keys G gra) Map.empty)"

subsection \<open>\<open>vinyl_addition_local_parities\<close>\<close>

text \<open>
  The body of the loop over the items of \<open>vin_dct\<close>. \<open>nkeys_ts[-1]\<close> is read only when
  \<open>nkeys_r\<close> is not empty, and raises \<open>IndexError\<close> on an empty tuple.
\<close>

definition vinyl_step ::
  "'g collab \<Rightarrow> 'g \<Rightarrow> int \<times> bond_key \<Rightarrow> (bond_key \<rightharpoonup> bool) \<Rightarrow> error + (bond_key \<rightharpoonup> bool)" where
  "vinyl_step G loc_tsg item par_dct =
     (case item of (vin_akey, vin_bkey) \<Rightarrow>
        let ste_bkeys = bond_stereo_keys G loc_tsg;
            loc_par_dct = filter_by_value_not_none (stereo_parities G loc_tsg);
            loc_pri_dct = local_stereo_priorities G loc_tsg;
            gra = ts_reactants_graph_without_stereo G loc_tsg
        in if vin_bkey \<in> ste_bkeys then
             ebind (getitem loc_par_dct (BKey vin_bkey)) (\<lambda>par.
             ebind (unpack1 (vin_bkey - {vin_akey})) (\<lambda>vin_nkey.
             ebind (core_bond_stereo_sorted_neighbor_keys G loc_tsg vin_akey vin_nkey loc_pri_dct)
               (\<lambda>(nkeys_ts, _).
             ebind (core_bond_stereo_sorted_neighbor_keys G gra vin_akey vin_nkey loc_pri_dct)
               (\<lambda>(nkeys_r, _).
               if nkeys_r \<noteq> [] then
                 (if nkeys_ts = [] then Inl IndexError
                  else if last nkeys_r \<noteq> last nkeys_ts then Inr (par_dct(vin_bkey \<mapsto> \<not> par))
                  else Inr par_dct)
               else Inr par_dct))))
           else Inr par_dct)"

definition vinyl_addition_local_parities :: "'g collab \<Rightarrow> 'g \<Rightarrow> error + (bond_key \<rightharpoonup> bool)" where
  "vinyl_addition_local_parities G loc_tsg =
     (let gra = ts_reactants_graph_without_stereo G loc_tsg;
          vin_dct = vinyl_radical_atom_bond_keys G gra
      in efold (vinyl_step G loc_tsg) vin_dct Map.empty)"

subsection \<open>\<open>ts_reacting_electron_direction\<close>\<close>

text \<open>The two angles the function returns: \<open>numpy.pi\<close> and \<open>4.0 * numpy.pi / 3.0\<close>.\<close>

datatype angle = Pi | Four_Pi_Thirds

definition ts_reacting_electron_direction ::
  "'g collab \<Rightarrow> 'g \<Rightarrow> int \<Rightarrow> error + ((int \<times> int) option \<times> (int \<times> int) option \<times> angle option)" where
  "ts_reacting_electron_direction G tsg key =
     (if key \<notin> ts_reacting_atom_keys G tsg then Inl AssertionError
      else
        let rcts_gra = ts_reactants_graph_without_stereo G tsg;
            tra_dct = ts_transferring_atoms G tsg;
            nkeys_dct = atoms_neighbor_atom_keys G rcts_gra;
            vin_dct = map_of (vinyl_radical_atom_bond_keys G rcts_gra);
            sig_dct = sigma_radical_atom_bond_keys G rcts_gra
        in case tra_dct key of
             Some (dkey, _) \<Rightarrow> Inr (Some (key, dkey), None, Some Pi)
           | None \<Rightarrow>
             (case vin_dct key of
                Some vin_bkey \<Rightarrow>
                  ebind (unpack1 (vin_bkey - {key})) (\<lambda>opp_key.
                  ebind (getitem nkeys_dct key) (\<lambda>nkeys.
                    let nkey = (case set_iter G (nkeys - {key, opp_key}) of
                                  [] \<Rightarrow> None | n # _ \<Rightarrow> Some n)
                    in Inr (Some (key, opp_key), map_option (Pair key) nkey, Some Four_Pi_Thirds)))
              | None \<Rightarrow>
                (case sig_dct key of
                   Some sig_bkey \<Rightarrow>
                     ebind (unpack1 (sig_bkey - {key})) (\<lambda>nkey.
                       Inr (Some (key, nkey), None, Some Pi))
                 | None \<Rightarrow> Inr (None, None, None))))"

section \<open>Vocabulary of the properties\<close>

text \<open>
  \<open>pair_keys\<close> is the invariant of the data model on the reacting bonds of a TS graph:
  every bond key has two atoms, and no bond is both breaking and forming.
\<close>

definition pair_keys :: "'g collab \<Rightarrow> 'g \<Rightarrow> bool" where
  "pair_keys G tsg \<longleftrightarrow>
     (\<forall>b \<in> set (ts_breaking_bond_keys G tsg) \<union> set (ts_forming_bond_keys G tsg). card b = 2) \<and>
     set (ts_breaking_bond_keys G tsg) \<inter> set (ts_forming_bond_keys G tsg) = {}"

text \<open>The donor and the acceptor that a (breaking bond, forming bond) pair gives.\<close>

definition transfer_entry :: "bond_key \<times> bond_key \<Rightarrow> int \<times> int" where
  "transfer_entry p = (the_elem (fst p - snd p), the_elem (snd p - fst p))"

text \<open>The pairs that share exactly the atom \<open>k\<close>, in the order of the loop.\<close>

definition sharing_pairs :: "'g collab \<Rightarrow> 'g \<Rightarrow> int \<Rightarrow> (bond_key \<times> bond_key) list" where
  "sharing_pairs G tsg k =
     filter (\<lambda>(brk_bkey, frm_bkey). brk_bkey \<inter> frm_bkey = {k})
       (List.product (ts_breaking_bond_keys G tsg) (ts_forming_bond_keys G tsg))"

section \<open>Example query layers\<close>

text \<open>
  The examples take natural numbers for graphs. \<open>blank\<close> answers every query with the
  empty result; an example overrides the queries it needs.
\<close>

definition blank :: "nat collab" where
  "blank = \<lparr> set_iter = sorted_list_of_set,
      ts_breaking_bond_keys = (\<lambda>_. []), ts_forming_bond_keys = (\<lambda>_. []),
      ts_reverse = (\<lambda>g. g), reacting_rings_bond_keys = (\<lambda>_. []),
      tetrahedral_atom_keys = (\<lambda>_. {}), without_dummy_atoms = (\<lambda>g. g),
      atom_implicit_hydrogens = (\<lambda>_. Map.empty), local_stereo_priorities = (\<lambda>_. Map.empty),
      ts_reactants_graph_without_stereo = (\<lambda>g. g), atom_neighbor_atom_keys = (\<lambda>_ _. {}),
      atoms_neighbor_atom_keys = (\<lambda>_. Map.empty), substitution_atom_transfers = (\<lambda>_. []),
      core_atom_stereo_sorted_neighbor_keys = (\<lambda>_ _. Inr []),
      core_bond_stereo_sorted_neighbor_keys = (\<lambda>_ _ _ _. Inr ([], [])),
      stereo_parities = (\<lambda>_. Map.empty), bond_stereo_keys = (\<lambda>_. {}),
      forming_rings_atom_keys = (\<lambda>_. []), rigid_planar_bond_keys = (\<lambda>_. []),
      vinyl_radical_atom_bond_keys = (\<lambda>_. []), sigma_radical_atom_bond_keys = (\<lambda>_. Map.empty),
      ts_reacting_atom_keys = (\<lambda>_. {}), ts_transferring_atoms = (\<lambda>_. Map.empty) \<rparr>"

text \<open>One breaking bond \<open>{1, 2}\<close> and one forming bond \<open>{2, 3}\<close>.\<close>

definition one_transfer :: "nat collab" where
  "one_transfer = blank \<lparr> ts_breaking_bond_keys := (\<lambda>_. [{1, 2}]),
                          ts_forming_bond_keys := (\<lambda>_. [{2, 3}]) \<rparr>"

text \<open>One breaking bond \<open>{1, 2}\<close> and two forming bonds at atom 2.\<close>

definition two_acceptors :: "nat collab" where
  "two_acceptors = blank \<lparr> ts_breaking_bond_keys := (\<lambda>_. [{1, 2}]),
                           ts_forming_bond_keys := (\<lambda>_. [{2, 3}, {2, 4}]) \<rparr>"

text \<open>
  The law of iteration over a Python set: every element of a finite set comes once.
\<close>

definition enumerates :: "(int set \<Rightarrow> int list) \<Rightarrow> bool" where
  "enumerates it \<longleftrightarrow> (\<forall>s. finite s \<longrightarrow> set (it s) = s \<and> distinct (it s))"

text \<open>
  The bond keys of the four-membered ring of claim C3, in the order in which CPython
  iterates over a \<open>frozenset\<close> of these four keys, whatever the order in which they were put
  into it.
\<close>

definition four_ring_bkeys :: "bond_key list" where
  "four_ring_bkeys = [{3, 4}, {1, 4}, {2, 3}, {1, 2}]"

text \<open>
  The scenario of claim C3: the only reacting ring has the four bonds \<open>{1, 2}\<close>, \<open>{2, 3}\<close>,
  \<open>{3, 4}\<close>, \<open>{1, 4}\<close>; its breaking bonds are \<open>{1, 2}\<close> and \<open>{3, 4}\<close>; it has no forming bond.
\<close>

definition four_ring_scenario :: "'g collab \<Rightarrow> 'g \<Rightarrow> bool" where
  "four_ring_scenario G tsg \<longleftrightarrow>
     enumerates (set_iter G) \<and>
     reacting_rings_bond_keys G tsg = [four_ring_bkeys] \<and>
     distinct (ts_breaking_bond_keys G tsg) \<and>
     set (inter_bkeys (ts_breaking_bond_keys G tsg) four_ring_bkeys) = {{1, 2}, {3, 4}} \<and>
     inter_bkeys (ts_forming_bond_keys G tsg) four_ring_bkeys = []"

text \<open>A TS graph of the scenario, with the two breaking bonds as the only reacting bonds.\<close>

definition four_ring :: "nat collab" where
  "four_ring = blank \<lparr> ts_breaking_bond_keys := (\<lambda>_. [{3, 4}, {1, 2}]),
      reacting_rings_bond_keys := (\<lambda>_. [four_ring_bkeys]) \<rparr>"

text \<open>
  A five-membered reacting ring with the breaking bonds \<open>{2, 3}\<close> and \<open>{1, 5}\<close>, the
  elimination bond \<open>{1, 2}\<close>, and the two forming bonds \<open>{3, 4}\<close> and \<open>{4, 5}\<close>.
\<close>

definition five_ring :: "nat collab" where
  "five_ring = blank \<lparr> ts_breaking_bond_keys := (\<lambda>_. [{2, 3}, {1, 5}]),
      ts_forming_bond_keys := (\<lambda>_. [{3, 4}, {4, 5}]),
      reacting_rings_bond_keys := (\<lambda>_. [[{1, 2}, {2, 3}, {3, 4}, {4, 5}, {1, 5}]]) \<rparr>"

text \<open>
  Atom 1 with the neighbours 2 and 3 and one implicit hydrogen; atom 1 with the four
  neighbours 2, 3, 4 and 5.
\<close>

definition three_neighbors :: "nat collab" where
  "three_neighbors = blank \<lparr> atom_neighbor_atom_keys := (\<lambda>_ _. {2, 3}),
      atom_implicit_hydrogens := (\<lambda>_. [1 \<mapsto> 1]),
      local_stereo_priorities := (\<lambda>_. [1 \<mapsto> 2, 2 \<mapsto> 1, 3 \<mapsto> 0]) \<rparr>"

definition four_neighbors :: "nat collab" where
  "four_neighbors = blank \<lparr> atom_neighbor_atom_keys := (\<lambda>_ _. {2, 3, 4, 5}),
      atom_implicit_hydrogens := (\<lambda>_. [1 \<mapsto> 0]),
      local_stereo_priorities := (\<lambda>_. [1 \<mapsto> 4, 2 \<mapsto> 3, 3 \<mapsto> 2, 4 \<mapsto> 1, 5 \<mapsto> 0]) \<rparr>"

text \<open>Atom 2 is the only reacting atom and is transferred from atom 1 to atom 3.\<close>

definition one_reacting_atom :: "nat collab" where
  "one_reacting_atom = blank \<lparr> ts_reacting_atom_keys := (\<lambda>_. {2}),
      ts_transferring_atoms := (\<lambda>_. [2 \<mapsto> (1, 3)]) \<rparr>"

text \<open>
  The vocabulary of claim C10. The stored parity of a bond is its entry in \<open>loc_par_dct\<close>.
  The highest-priority neighbour is the last entry of the sorted neighbour keys of the vinyl
  atom; it differs between the two views when both lists are there and their last entries
  differ. A vinyl stereo bond is flipped when this holds for a vinyl radical atom of \<open>vin_dct\<close>
  that has this bond.
\<close>

definition stored_bond_parity :: "'g collab \<Rightarrow> 'g \<Rightarrow> bond_key \<Rightarrow> bool option" where
  "stored_bond_parity G loc_tsg bkey =
     filter_by_value_not_none (stereo_parities G loc_tsg) (BKey bkey)"

definition top_neighbor_differs :: "'g collab \<Rightarrow> 'g \<Rightarrow> int \<Rightarrow> bond_key \<Rightarrow> bool" where
  "top_neighbor_differs G loc_tsg vin_akey vin_bkey =
     (let loc_pri_dct = local_stereo_priorities G loc_tsg;
          gra = ts_reactants_graph_without_stereo G loc_tsg;
          vin_nkey = the_elem (vin_bkey - {vin_akey})
      in case core_bond_stereo_sorted_neighbor_keys G loc_tsg vin_akey vin_nkey loc_pri_dct of
           Inl _ \<Rightarrow> False
         | Inr (nkeys_ts, _) \<Rightarrow>
             (case core_bond_stereo_sorted_neighbor_keys G gra vin_akey vin_nkey loc_pri_dct of
                Inl _ \<Rightarrow> False
              | Inr (nkeys_r, _) \<Rightarrow>
                  nkeys_r \<noteq> [] \<and> nkeys_ts \<noteq> [] \<and> last nkeys_r \<noteq> last nkeys_ts))"

definition flipped_vinyl_bond :: "'g collab \<Rightarrow> 'g \<Rightarrow> bond_key \<Rightarrow> bool" where
  "flipped_vinyl_bond G loc_tsg vin_bkey \<longleftrightarrow>
     vin_bkey \<in> bond_stereo_keys G loc_tsg \<and>
     list_ex (\<lambda>(a, b). b = vin_bkey \<and> top_neighbor_differs G loc_tsg a b)
       (vinyl_radical_atom_bond_keys G (ts_reactants_graph_without_stereo G loc_tsg))"

text \<open>
  Two vinyl radical atoms 1 and 5 with the stereo bonds \<open>{1, 2}\<close> and \<open>{5, 6}\<close>. Graph 1 is
  the reactants graph. Atom 1 has the highest-priority neighbour 9 in the TS graph and 3 in
  the reactants graph; atom 5 has the same neighbour in both.
\<close>

definition vinyl_example :: "nat collab" where
  "vinyl_example = blank \<lparr>
      ts_reactants_graph_without_stereo := (\<lambda>_. 1),
      vinyl_radical_atom_bond_keys := (\<lambda>_. [(1, {1, 2}), (5, {5, 6})]),
      bond_stereo_keys := (\<lambda>_. {{1, 2}, {5, 6}}),
      stereo_parities := (\<lambda>_. [BKey {1, 2} \<mapsto> Some True, BKey {5, 6} \<mapsto> Some False]),
      core_bond_stereo_sorted_neighbor_keys := (\<lambda>g a n pri.
        if a = 1 then (if g = 0 then Inr ([Some 3, Some 9], [Some 4]) else Inr ([Some 3], [Some 4]))
        else Inr ([Some 7], [Some 8])) \<rparr>"

text \<open>
  The vocabulary of claim C5: \<open>p_b12\<close> is the parity that the formula of the claim gives for
  the bond, from the stored parities of its two atoms and the parities of the two
  permutations.
\<close>

definition constrained_bond_parity :: "'g collab \<Rightarrow> 'g \<Rightarrow> bond_key \<Rightarrow> bool \<Rightarrow> bool" where
  "constrained_bond_parity G loc_tsg bkey p_b12 \<longleftrightarrow>
     (\<exists>key1 key2 key0 key3 p_a1 p_a2 nk1s nk2s p_1 p_2.
        set_iter G bkey = [key1, key2] \<and>
        forming_partner (ts_forming_bond_keys G loc_tsg) key1 = Inr key0 \<and>
        forming_partner (ts_forming_bond_keys G loc_tsg) key2 = Inr key3 \<and>
        filter_by_value_not_none (stereo_parities G loc_tsg) (AKey key1) = Some p_a1 \<and>
        filter_by_value_not_none (stereo_parities G loc_tsg) (AKey key2) = Some p_a2 \<and>
        priority_sorted_neighbors G (atoms_neighbor_atom_keys G loc_tsg)
          (local_stereo_priorities G loc_tsg) key1 = Inr nk1s \<and>
        priority_sorted_neighbors G (atoms_neighbor_atom_keys G loc_tsg)
          (local_stereo_priorities G loc_tsg) key2 = Inr nk2s \<and>
        is_even_permutation nk1s (move_items_to_front nk1s [key2, key0]) = Inr p_1 \<and>
        is_even_permutation nk2s (move_items_to_front nk2s [key1, key3]) = Inr p_2 \<and>
        p_b12 = (\<not> ((p_a1 \<noteq> p_1) \<noteq> (p_a2 \<noteq> p_2))))"

text \<open>
  The constrained insertion of the docstring: the rigid bond \<open>{1, 2}\<close>, the forming bonds
  \<open>{1, 3}\<close> and \<open>{2, 6}\<close> in the forming ring of the atoms 1, 2, 6 and 3, atom 1 with parity
  \<open>True\<close> and atom 2 with parity \<open>False\<close>.
\<close>

definition insertion_example :: "nat collab" where
  "insertion_example = blank \<lparr>
      ts_forming_bond_keys := (\<lambda>_. [{1, 3}, {2, 6}]),
      rigid_planar_bond_keys := (\<lambda>_. [{1, 2}]),
      forming_rings_atom_keys := (\<lambda>_. [{1, 2, 6, 3}]),
      stereo_parities := (\<lambda>_. [AKey 1 \<mapsto> Some True, AKey 2 \<mapsto> Some False]),
      atoms_neighbor_atom_keys := (\<lambda>_. [1 \<mapsto> {2, 3, 4, 5}, 2 \<mapsto> {1, 6, 7, 8}]),
      local_stereo_priorities := (\<lambda>_. [1 \<mapsto> 0, 2 \<mapsto> 5, 3 \<mapsto> 2, 4 \<mapsto> 3, 5 \<mapsto> 4,
                                         6 \<mapsto> 6, 7 \<mapsto> 7, 8 \<mapsto> 8]) \<rparr>"

text \<open>
  The vocabulary of claim C7. \<open>site_flip\<close> relates a substitution site, with its donor and
  acceptor, to the flag that the loop body computes for it.
\<close>

definition site_flip :: "'g collab \<Rightarrow> 'g \<Rightarrow> int \<times> int \<times> int \<Rightarrow> bool \<Rightarrow> bool" where
  "site_flip G tsg item rflip \<longleftrightarrow>
     (case item of (tra_key, don_key, acc_key) \<Rightarrow>
        \<exists>nks0 i nks1.
          core_atom_stereo_sorted_neighbor_keys G tsg tra_key = Inr nks0 \<and>
          list_index nks0 (Some don_key) = Inr i \<and>
          core_atom_stereo_sorted_neighbor_keys G (ts_reverse G tsg) tra_key = Inr nks1 \<and>
          is_even_permutation (nks0[i := Some acc_key]) nks1 = Inr rflip)"

text \<open>
  Modelled from the spec: \<open>ts_reverse\<close> and \<open>substitution_atom_transfers\<close> are not among the
  sources. The reversed TS graph is to "swap breaking/forming roles", "reversal is an
  involution", and the substitution map is the atom-transfer map "transferring atom \<open>\<rightarrow>\<close>
  (donor, acceptor)" restricted to tetrahedral centers. So reversing twice gives the graph
  back, and the substitution sites of the reversed graph are those of the graph with donor
  and acceptor exchanged; a dictionary has each site once.
\<close>

definition reversal_contract :: "'g collab \<Rightarrow> 'g \<Rightarrow> bool" where
  "reversal_contract G tsg \<longleftrightarrow>
     ts_reverse G (ts_reverse G tsg) = tsg \<and>
     distinct (map fst (substitution_atom_transfers G tsg)) \<and>
     distinct (map fst (substitution_atom_transfers G (ts_reverse G tsg))) \<and>
     set (substitution_atom_transfers G (ts_reverse G tsg)) =
       (\<lambda>(tra_key, don_key, acc_key). (tra_key, acc_key, don_key)) `
         set (substitution_atom_transfers G tsg)"

text \<open>
  \<open>exchange u v\<close> exchanges two entries; \<open>inversion_set\<close> is the set of the pairs that
  \<open>inversions\<close> lists.
\<close>

definition exchange :: "'a \<Rightarrow> 'a \<Rightarrow> 'a \<Rightarrow> 'a" where
  "exchange u v x = (if x = u then v else if x = v then u else x)"

definition inversion_set :: "'a list \<Rightarrow> 'a list \<Rightarrow> ('a \<times> 'a) set" where
  "inversion_set xs ys =
     {(a, b). a \<in> set xs \<and> b \<in> set xs \<and> position xs a < position xs b \<and>
              position ys b < position ys a}"

text \<open>
  An Sn2 site at atom 1 with the donor 5 and the acceptor 6. Graph 1 is the reversed graph
  of graph 0 and the other way round.
\<close>

definition sn2_example :: "nat collab" where
  "sn2_example = blank \<lparr>
      ts_reverse := (\<lambda>g. 1 - g),
      substitution_atom_transfers := (\<lambda>g. if g = 0 then [(1, 5, 6)] else [(1, 6, 5)]),
      core_atom_stereo_sorted_neighbor_keys := (\<lambda>g k.
        if g = 0 then Inr [Some 2, Some 3, Some 4, Some 5]
        else Inr [Some 6, Some 2, Some 3, Some 4]) \<rparr>"

section \<open>Atom transfers\<close>

lemma pair_cards:
  assumes "card b = 2" "card f = 2" "b \<noteq> f" "b \<inter> f \<noteq> {}"
  shows "card (b \<inter> f) = 1 \<and> card (b - f) = 1 \<and> card (f - b) = (1::nat)"
proof -
  have fb: "finite b" and ff: "finite f" using assms by (auto intro: card_ge_0_finite)
  have "card (b \<inter> f) \<le> 2" using card_mono[of b "b \<inter> f"] fb assms by simp
  moreover have "card (b \<inter> f) \<noteq> 2"
  proof
    assume c: "card (b \<inter> f) = 2"
    have "b \<inter> f = b" using card_subset_eq[of b "b \<inter> f"] fb c assms by simp
    moreover have "b \<inter> f = f" using card_subset_eq[of f "b \<inter> f"] ff c assms by simp
    ultimately show False using assms by simp
  qed
  moreover have "card (b \<inter> f) \<noteq> 0" using fb assms by simp
  ultimately have c1: "card (b \<inter> f) = 1" by arith
  have "card (b - f) = card b - card (b \<inter> f)" using card_Diff_subset_Int[of b f] fb by simp
  moreover have "card (f - b) = card f - card (f \<inter> b)" using card_Diff_subset_Int[of f b] ff by simp
  ultimately show ?thesis using c1 assms by (simp add: Int_commute)
qed

lemma transfer_step_wf:
  assumes "card b = 2" "card f = 2" "b \<noteq> f"
  shows "transfer_step (b, f) m =
           Inr (if b \<inter> f = {} then m else m(the_elem (b \<inter> f) \<mapsto> transfer_entry (b, f)))"
  using pair_cards[OF assms]
  by (simp add: transfer_step_def ebind_def unpack1_def transfer_entry_def)

lemma efold_transfer:
  assumes "\<forall>(b, f) \<in> set ps. card b = 2 \<and> card f = 2 \<and> b \<noteq> f"
  shows "efold transfer_step ps m =
           Inr (\<lambda>k. case filter (\<lambda>(b, f). b \<inter> f = {k}) ps of
                       [] \<Rightarrow> m k
                     | q # qs \<Rightarrow> Some (transfer_entry (last (q # qs))))"
  using assms
proof (induction ps arbitrary: m)
  case Nil
  then show ?case by simp
next
  case (Cons p ps)
  obtain b f where p: "p = (b, f)" by (cases p)
  have wf: "card b = 2" "card f = 2" "b \<noteq> f" using Cons.prems p by auto
  have rest: "\<forall>(b, f) \<in> set ps. card b = 2 \<and> card f = 2 \<and> b \<noteq> f" using Cons.prems by auto
  have single: "b \<inter> f \<noteq> {} \<Longrightarrow> b \<inter> f = {the_elem (b \<inter> f)}"
    using pair_cards[OF wf] by (metis card_1_singletonE the_elem_eq)
  show ?case
  proof (cases "b \<inter> f = {}")
    case True
    then show ?thesis
      unfolding p efold.simps transfer_step_wf[OF wf]
      by (simp add: Cons.IH[OF rest])
  next
    case False
    have "(case filter (\<lambda>(b, f). b \<inter> f = {k}) ps of
              [] \<Rightarrow> (m(the_elem (b \<inter> f) \<mapsto> transfer_entry (b, f))) k
            | q # qs \<Rightarrow> Some (transfer_entry (last (q # qs)))) =
          (case filter (\<lambda>(b, f). b \<inter> f = {k}) ((b, f) # ps) of
              [] \<Rightarrow> m k
            | q # qs \<Rightarrow> Some (transfer_entry (last (q # qs))))" for k
      using single[OF False] by (auto split: list.splits)
    then show ?thesis
      unfolding p efold.simps transfer_step_wf[OF wf]
      using False by (simp add: Cons.IH[OF rest])
  qed
qed

lemma product_wf:
  assumes "pair_keys G tsg"
  shows "\<forall>(b, f) \<in> set (List.product (ts_breaking_bond_keys G tsg) (ts_forming_bond_keys G tsg)).
           card b = 2 \<and> card f = 2 \<and> b \<noteq> f"
  using assms unfolding pair_keys_def by auto

text \<open>
  Claim C1, as the code has it. For every TS graph whose bond keys are pairs and whose
  breaking and forming bonds are disjoint, \<open>atom_transfers\<close> returns the dictionary that has
  an entry at \<open>k\<close> exactly when some (breaking bond, forming bond) pair shares exactly the
  atom \<open>k\<close>, and the entry is the (donor, acceptor) of the last such pair in the order of
  the loop: of the pair itself when no other pair shares \<open>k\<close>. The witness is the scenario
  of one breaking bond \<open>{1, 2}\<close> and one forming bond \<open>{2, 3}\<close>, which yields \<open>{2: (1, 3)}\<close>.
\<close>

theorem atom_transfers_last_sharing_pair:
  assumes "pair_keys G tsg"
  shows "atom_transfers G tsg =
           Inr (\<lambda>k. case sharing_pairs G tsg k of
                       [] \<Rightarrow> None
                     | q # qs \<Rightarrow> Some (transfer_entry (last (q # qs))))"
  unfolding atom_transfers_def Let_def sharing_pairs_def
  by (simp add: efold_transfer[OF product_wf[OF assms]])

lemma one_transfer_run: "atom_transfers one_transfer 0 = Inr [2 \<mapsto> (1, 3)]"
  by (simp add: atom_transfers_def one_transfer_def blank_def transfer_step_def ebind_def unpack1_def
      insert_Diff_if)

theorem atom_transfers_last_sharing_pair_witness:
  "pair_keys one_transfer 0 \<and>
   atom_transfers one_transfer 0 = Inr [2 \<mapsto> (1, 3)] \<and>
   (\<lambda>k. case sharing_pairs one_transfer 0 k of
           [] \<Rightarrow> None
         | q # qs \<Rightarrow> Some (transfer_entry (last (q # qs)))) = [2 \<mapsto> (1, 3)]"
proof -
  have wf: "pair_keys one_transfer 0"
    by (simp add: pair_keys_def one_transfer_def blank_def doubleton_eq_iff)
  show ?thesis
    using wf atom_transfers_last_sharing_pair[OF wf] one_transfer_run by simp
qed

text \<open>
  Claim C1 as stated fails where two pairs share the transferring atom: with the breaking
  bond \<open>{1, 2}\<close> and the forming bonds \<open>{2, 3}\<close> and \<open>{2, 4}\<close>, the pair of \<open>{1, 2}\<close> and \<open>{2, 3}\<close>
  shares exactly atom 2, and the entry of atom 2 is \<open>(1, 4)\<close>, not \<open>(1, 3)\<close>.
\<close>

theorem atom_transfers_overwrite_counterexample:
  "{1, 2} \<in> set (ts_breaking_bond_keys two_acceptors 0) \<and>
   {2, 3} \<in> set (ts_forming_bond_keys two_acceptors 0) \<and>
   {1, 2} \<inter> {2, 3} = {2 :: int} \<and>
   atom_transfers two_acceptors 0 = Inr [2 \<mapsto> (1, 4)] \<and>
   [2 \<mapsto> (1, 4)] (2 :: int) \<noteq> Some (1 :: int, 3 :: int)"
  by (simp add: atom_transfers_def two_acceptors_def blank_def transfer_step_def ebind_def
      unpack1_def insert_Diff_if)

text \<open>
  Claim C6. For every TS graph whose breaking and forming bond keys are disjoint
  two-element sets, \<open>atom_transfers\<close> returns, and in every entry \<open>k: (donor, acceptor)\<close>
  the donor and the acceptor differ from \<open>k\<close> and from each other.
\<close>

theorem atom_transfers_entries_distinct:
  assumes "pair_keys G tsg"
  shows "\<exists>tra_dct. atom_transfers G tsg = Inr tra_dct \<and>
           (\<forall>k don_key acc_key. tra_dct k = Some (don_key, acc_key) \<longrightarrow>
              don_key \<noteq> k \<and> acc_key \<noteq> k \<and> don_key \<noteq> acc_key)"
proof -
  let ?ps = "List.product (ts_breaking_bond_keys G tsg) (ts_forming_bond_keys G tsg)"
  let ?m = "\<lambda>k. case filter (\<lambda>(b, f). b \<inter> f = {k}) ?ps of
                   [] \<Rightarrow> None
                 | q # qs \<Rightarrow> Some (transfer_entry (last (q # qs)))"
  have run: "atom_transfers G tsg = Inr ?m"
    unfolding atom_transfers_def Let_def
    by (simp add: efold_transfer[OF product_wf[OF assms]])
  have "don_key \<noteq> k \<and> acc_key \<noteq> k \<and> don_key \<noteq> acc_key"
    if e: "?m k = Some (don_key, acc_key)" for k don_key acc_key
  proof -
    from e obtain q qs where f: "filter (\<lambda>(b, f). b \<inter> f = {k}) ?ps = q # qs"
      and v: "transfer_entry (last (q # qs)) = (don_key, acc_key)"
      by (auto split: list.splits)
    obtain b f where l: "last (q # qs) = (b, f)" by (cases "last (q # qs)")
    have "(b, f) \<in> set (filter (\<lambda>(b, f). b \<inter> f = {k}) ?ps)"
      unfolding f using l last_in_set[of "q # qs"] by simp
    then have mem: "(b, f) \<in> set ?ps" and k: "b \<inter> f = {k}" by auto
    have wf: "card b = 2" "card f = 2" "b \<noteq> f" using product_wf[OF assms] mem by auto
    have ne: "b \<inter> f \<noteq> {}" using k by simp
    from pair_cards[OF wf ne] obtain d a where d: "b - f = {d}" and a: "f - b = {a}"
      by (metis card_1_singletonE)
    have "don_key = d" "acc_key = a" using v l d a by (simp_all add: transfer_entry_def)
    moreover have "d \<in> b" "d \<notin> f" "a \<in> f" "a \<notin> b" using d a by auto
    moreover have "k \<in> b" "k \<in> f" using k by auto
    ultimately show ?thesis by auto
  qed
  with run show ?thesis by blast
qed

theorem atom_transfers_entries_distinct_witness:
  "pair_keys two_acceptors 0 \<and>
   (\<exists>tra_dct. atom_transfers two_acceptors 0 = Inr tra_dct \<and>
      (\<forall>k don_key acc_key. tra_dct k = Some (don_key, acc_key) \<longrightarrow>
         don_key \<noteq> k \<and> acc_key \<noteq> k \<and> don_key \<noteq> acc_key))"
proof -
  have wf: "pair_keys two_acceptors 0"
    by (simp add: pair_keys_def two_acceptors_def blank_def doubleton_eq_iff)
  show ?thesis using wf atom_transfers_entries_distinct[OF wf] by simp
qed

section \<open>Eliminations and insertions\<close>

lemma enumerates_sorted: "enumerates sorted_list_of_set"
  by (simp add: enumerates_def)

lemma enumerates_single: "enumerates it \<Longrightarrow> it {k} = [k]"
proof -
  assume e: "enumerates it"
  then have s: "set (it {k}) = {k}" and d: "distinct (it {k})" by (auto simp: enumerates_def)
  show ?thesis
  proof (cases "it {k}")
    case Nil
    with s show ?thesis by simp
  next
    case (Cons x xs)
    with s d have "x = k" "set xs \<subseteq> {k}" "k \<notin> set xs" by auto
    then have "xs = []" by (cases xs) auto
    with Cons \<open>x = k\<close> show ?thesis by simp
  qed
qed

lemma find_SomeD: "find P xs = Some x \<Longrightarrow> P x \<and> x \<in> set xs"
  by (induction xs) (auto split: if_splits)

lemma two_element_list:
  assumes "distinct xs" "set xs = {a, b}" "a \<noteq> b"
  shows "xs = [a, b] \<or> xs = [b, a]"
proof -
  have "length xs = 2" using assms distinct_card[of xs] by simp
  then obtain x y where xs: "xs = [x, y]"
    by (cases xs; cases "tl xs"; cases "tl (tl xs)") auto
  with assms show ?thesis by (auto simp: doubleton_eq_iff)
qed

lemma common_atom_single:
  assumes "enumerates it" "bkey1 \<inter> bkey2 = {k}"
  shows "common_atom it bkey1 bkey2 = Inr k"
  using enumerates_single[OF assms(1), of k] assms(2) by (simp add: common_atom_def)

lemma sorted_14:
  assumes "enumerates it" "brk = [{1, 2}, {3, 4}] \<or> brk = [{3, 4}, {1, 2}]"
  shows "py_sorted (common_atom it {1, 4}) brk = Inr [{1, 2}, {3, 4}]"
proof -
  have a: "common_atom it {1, 4} {1, 2} = Inr 1"
    by (rule common_atom_single[OF assms(1)]) auto
  have b: "common_atom it {1, 4} {3, 4} = Inr 4"
    by (rule common_atom_single[OF assms(1)]) auto
  show ?thesis using assms(2) by (auto simp: py_sorted_def ebind_def a b)
qed

lemma ring_step_14:
  assumes en: "enumerates (set_iter G)"
    and brk: "inter_bkeys (ts_breaking_bond_keys G tsg) rng_bkeys = [{1, 2}, {3, 4}] \<or>
              inter_bkeys (ts_breaking_bond_keys G tsg) rng_bkeys = [{3, 4}, {1, 2}]"
    and frm: "inter_bkeys (ts_forming_bond_keys G tsg) rng_bkeys = []"
    and fnd: "find (is_elimination_bkey (inter_bkeys (ts_breaking_bond_keys G tsg) rng_bkeys) [])
                rng_bkeys = Some {1, 4}"
  shows "elimination_step G tsg rng_bkeys Map.empty = Inr [{1, 4} \<mapsto> (2, 3, None)]"
proof -
  have len: "length (inter_bkeys (ts_breaking_bond_keys G tsg) rng_bkeys) = 2"
    using brk by auto
  have u1: "unpack1 ({1, 2} - {1, 4}) = Inr 2" by (simp add: unpack1_def insert_Diff_if)
  have u2: "unpack1 ({3, 4} - {1, 4}) = Inr 3" by (simp add: unpack1_def insert_Diff_if)
  show ?thesis
    unfolding elimination_step_def Let_def frm
    by (simp only: len fnd sorted_14[OF en brk] ebind_def u1 u2 if_True option.case sum.case
        list.case list.size) simp
qed

text \<open>
  Claim C3, as the code has it. For a TS graph whose single reacting ring is four-membered
  with the breaking bonds \<open>{1, 2}\<close> and \<open>{3, 4}\<close> and no forming bond, \<open>eliminations\<close> returns
  exactly \<open>{{1, 4}: (2, 3, None)}\<close>: the elimination bond \<open>{1, 4}\<close> is a bond of the ring that
  touches both breaking bonds and is not a forming bond, and the leaving atoms 2 and 3 are
  in the order of the atoms 1 and 4 of the elimination bond that they are bonded to.
\<close>

theorem eliminations_four_ring:
  assumes "four_ring_scenario G tsg"
  shows "eliminations G tsg = Inr [{1, 4} \<mapsto> (2, 3, None)] \<and>
         {1, 4} \<in> set four_ring_bkeys \<and>
         is_elimination_bkey (inter_bkeys (ts_breaking_bond_keys G tsg) four_ring_bkeys)
           (inter_bkeys (ts_forming_bond_keys G tsg) four_ring_bkeys) {1, 4} \<and>
         common_atom (set_iter G) {1, 4} {1, 2} = Inr 1 \<and>
         common_atom (set_iter G) {1, 4} {3, 4} = Inr 4"
proof -
  define brk where "brk = inter_bkeys (ts_breaking_bond_keys G tsg) four_ring_bkeys"
  note h = assms[unfolded four_ring_scenario_def]
  note en = h[THEN conjunct1]
  note rings = h[THEN conjunct2, THEN conjunct1]
  note dist = h[THEN conjunct2, THEN conjunct2, THEN conjunct1]
  note b1 = h[THEN conjunct2, THEN conjunct2, THEN conjunct2, THEN conjunct1, folded brk_def]
  note frm = h[THEN conjunct2, THEN conjunct2, THEN conjunct2, THEN conjunct2]
  have b2: "distinct brk" using dist by (simp add: brk_def inter_bkeys_def)
  have b3: "{1, 2} \<noteq> {3, 4 :: int}" by (simp add: doubleton_eq_iff)
  have brk: "brk = [{1, 2}, {3, 4}] \<or> brk = [{3, 4}, {1, 2}]"
    by (rule two_element_list[OF b2 b1 b3])
  have el: "is_elimination_bkey brk [] {1, 4}"
    using brk by (auto simp: is_elimination_bkey_def)
  have no: "\<not> is_elimination_bkey brk [] {3, 4}"
    using brk by (auto simp: is_elimination_bkey_def)
  have fnd: "find (is_elimination_bkey brk []) four_ring_bkeys = Some {1, 4}"
    by (simp add: four_ring_bkeys_def el no)
  have step: "elimination_step G tsg four_ring_bkeys Map.empty = Inr [{1, 4} \<mapsto> (2, 3, None)]"
    using fnd brk frm unfolding brk_def by (intro ring_step_14[OF en]) simp_all
  have run: "eliminations G tsg = Inr [{1, 4} \<mapsto> (2, 3, None)]"
    unfolding eliminations_def rings by (simp add: step)
  have mem: "{1, 4} \<in> set four_ring_bkeys" by (simp add: four_ring_bkeys_def)
  have c1: "common_atom (set_iter G) {1, 4} {1, 2} = Inr 1"
    by (rule common_atom_single[OF en]) auto
  have c4: "common_atom (set_iter G) {1, 4} {3, 4} = Inr 4"
    by (rule common_atom_single[OF en]) auto
  show ?thesis using run mem el c1 c4 by (simp add: brk_def frm)
qed

theorem eliminations_four_ring_witness:
  "four_ring_scenario four_ring 0 \<and>
   eliminations four_ring 0 = Inr [{1, 4} \<mapsto> (2, 3, None)]"
proof -
  have sc: "four_ring_scenario four_ring 0"
    unfolding four_ring_scenario_def
    by (simp add: four_ring_def four_ring_bkeys_def blank_def enumerates_sorted doubleton_eq_iff
        insert_commute inter_bkeys_def)
  show ?thesis using sc eliminations_four_ring[OF sc] by simp
qed

text \<open>
  Claim C3 as stated fails in one point: \<open>{1, 4}\<close> is not the only bond of the ring that
  touches both breaking bonds and is not a forming bond, since \<open>{2, 3}\<close> is another.
\<close>

theorem eliminations_four_ring_counterexample:
  "reacting_rings_bond_keys four_ring 0 = [four_ring_bkeys] \<and>
   inter_bkeys (ts_breaking_bond_keys four_ring 0) four_ring_bkeys = [{3, 4}, {1, 2}] \<and>
   inter_bkeys (ts_forming_bond_keys four_ring 0) four_ring_bkeys = [] \<and>
   {1, 4} \<in> set four_ring_bkeys \<and>
   {2, 3} \<in> set four_ring_bkeys \<and>
   {2, 3} \<noteq> {1, 4 :: int} \<and>
   is_elimination_bkey [{3, 4}, {1, 2}] [] {1, 4} \<and>
   is_elimination_bkey [{3, 4}, {1, 2}] [] {2, 3}"
  by (simp add: four_ring_def four_ring_bkeys_def blank_def inter_bkeys_def
      is_elimination_bkey_def doubleton_eq_iff)

text \<open>
  Claim C2. For every TS graph, \<open>insertions\<close> is \<open>eliminations\<close> of the reversed TS graph,
  exceptions included.
\<close>

theorem insertions_by_reversal: "insertions G tsg = eliminations G (ts_reverse G tsg)"
  by (simp add: insertions_def)

lemma efold_error:
  assumes "x \<in> set xs" "\<And>s. \<exists>e. f x s = Inl e"
  shows "\<exists>e. efold f xs s = Inl e"
  using assms(1)
proof (induction xs arbitrary: s)
  case Nil
  then show ?case by simp
next
  case (Cons y ys)
  show ?case
  proof (cases "f y s")
    case (Inl e)
    then show ?thesis by simp
  next
    case (Inr s')
    show ?thesis
    proof (cases "x = y")
      case True
      with assms(2)[of s] Inr show ?thesis by simp
    next
      case False
      with Cons.prems have "x \<in> set ys" by simp
      from Cons.IH[OF this, of s'] Inr show ?thesis by simp
    qed
  qed
qed

lemma elimination_step_error:
  assumes "length (inter_bkeys (ts_breaking_bond_keys G tsg) rng_bkeys) = 2"
    and "find (is_elimination_bkey (inter_bkeys (ts_breaking_bond_keys G tsg) rng_bkeys) (inter_bkeys (ts_forming_bond_keys G tsg) rng_bkeys))
           rng_bkeys = Some bkey"
    and "1 < length (inter_bkeys (ts_forming_bond_keys G tsg) rng_bkeys)"
  shows "\<exists>e. elimination_step G tsg rng_bkeys elim_dct = Inl e"
  using assms unfolding elimination_step_def Let_def
  by (auto simp: ebind_def split: sum.splits list.splits)

lemma emap_length: "emap f xs = Inr ys \<Longrightarrow> length ys = length xs"
  by (induction xs arbitrary: ys) (auto simp: ebind_def split: sum.splits)

lemma py_sorted_perm:
  assumes "py_sorted key xs = Inr ys"
  shows "length ys = length xs \<and> set ys = set xs"
proof -
  from assms obtain ks where ks: "emap key xs = Inr ks"
    and ys: "ys = map snd (sort_key fst (zip ks xs))"
    by (auto simp: py_sorted_def ebind_def split: sum.splits)
  have l: "length ks = length xs" by (rule emap_length[OF ks])
  have "set ys = snd ` set (zip ks xs)" unfolding ys by simp
  also have "\<dots> = set (map snd (zip ks xs))" by simp
  also have "\<dots> = set xs" using l by simp
  finally show ?thesis using l by (simp add: ys)
qed

lemma enumerates_nonempty: "enumerates it \<Longrightarrow> finite s \<Longrightarrow> s \<noteq> {} \<Longrightarrow> it s \<noteq> []"
  unfolding enumerates_def by (metis empty_set)

lemma py_sorted_common_atom:
  assumes "enumerates it" "\<forall>b \<in> set brk. finite b \<and> bkey \<inter> b \<noteq> {}"
  shows "\<exists>srt. py_sorted (common_atom it bkey) brk = Inr srt"
proof -
  have "\<exists>ks. emap (common_atom it bkey) brk = Inr ks" using assms(2)
  proof (induction brk)
    case Nil
    then show ?case by simp
  next
    case (Cons b bs)
    then have "it (bkey \<inter> b) \<noteq> []"
      using enumerates_nonempty[OF assms(1), of "bkey \<inter> b"] by simp
    then obtain k where "common_atom it bkey b = Inr k"
      by (cases "it (bkey \<inter> b)") (auto simp: common_atom_def)
    moreover obtain ks where "emap (common_atom it bkey) bs = Inr ks" using Cons by auto
    ultimately show ?case by (simp add: ebind_def)
  qed
  then show ?thesis by (auto simp: py_sorted_def ebind_def)
qed

lemma elimination_step_assertion:
  assumes len: "length (inter_bkeys (ts_breaking_bond_keys G tsg) rng_bkeys) = 2"
    and fnd: "find (is_elimination_bkey (inter_bkeys (ts_breaking_bond_keys G tsg) rng_bkeys) (inter_bkeys (ts_forming_bond_keys G tsg) rng_bkeys))
           rng_bkeys = Some bkey"
    and frm: "1 < length (inter_bkeys (ts_forming_bond_keys G tsg) rng_bkeys)"
    and en: "enumerates (set_iter G)"
    and cb: "card bkey = 2"
    and brk: "\<forall>b \<in> set (inter_bkeys (ts_breaking_bond_keys G tsg) rng_bkeys). card b = 2 \<and> b \<noteq> bkey"
  shows "elimination_step G tsg rng_bkeys elim_dct = Inl AssertionError"
proof -
  define brk_bkeys where "brk_bkeys = inter_bkeys (ts_breaking_bond_keys G tsg) rng_bkeys"
  define frm_bkeys where "frm_bkeys = inter_bkeys (ts_forming_bond_keys G tsg) rng_bkeys"
  have el: "is_elimination_bkey brk_bkeys frm_bkeys bkey"
    using find_SomeD[OF fnd] unfolding brk_bkeys_def frm_bkeys_def by simp
  then have touch: "\<forall>b \<in> set brk_bkeys. bkey \<inter> b \<noteq> {}"
    unfolding is_elimination_bkey_def list_all_iff by blast
  have fin: "\<forall>b \<in> set brk_bkeys. finite b"
  proof
    fix b assume "b \<in> set brk_bkeys"
    then have "card b = 2" using brk by (simp add: brk_bkeys_def)
    then show "finite b" using card_ge_0_finite[of b] by simp
  qed
  obtain srt where srt: "py_sorted (common_atom (set_iter G) bkey) brk_bkeys = Inr srt"
    using py_sorted_common_atom[OF en, of brk_bkeys bkey] touch fin by auto
  from py_sorted_perm[OF srt] have l2: "length srt = 2" and st: "set srt = set brk_bkeys"
    using len by (simp_all add: brk_bkeys_def)
  from l2 obtain b1 b2 where s2: "srt = [b1, b2]"
    by (cases srt; cases "tl srt"; cases "tl (tl srt)") auto
  have u: "card (b - bkey) = 1" if "b \<in> set brk_bkeys" for b
  proof -
    have "card b = 2" "b \<noteq> bkey" using brk that by (auto simp: brk_bkeys_def)
    moreover have "b \<inter> bkey \<noteq> {}" using touch that by auto
    ultimately show ?thesis using pair_cards[of b bkey] cb by simp
  qed
  have u1: "card (b1 - bkey) = 1" and u2: "card (b2 - bkey) = 1"
    using u st s2 by auto
  show ?thesis
    unfolding elimination_step_def Let_def
      brk_bkeys_def[symmetric] frm_bkeys_def[symmetric]
    using len fnd frm
    by (simp add: brk_bkeys_def[symmetric] frm_bkeys_def[symmetric] srt s2 ebind_def
        unpack1_def u1 u2)
qed

text \<open>
  Claim C9. If a reacting ring has exactly two breaking bonds, an elimination bond is found
  in it, and it has more than one forming bond, then \<open>eliminations\<close> raises and returns no
  dictionary. When the ring is the only reacting ring and the elimination bond and the
  breaking bonds are distinct pairs of atoms, the exception is the \<open>AssertionError\<close> of
  "Unexpected multiple forming bonds".
\<close>

theorem eliminations_two_forming_bonds_raise:
  assumes "rng_bkeys \<in> set (reacting_rings_bond_keys G tsg)"
    and "length (inter_bkeys (ts_breaking_bond_keys G tsg) rng_bkeys) = 2"
    and "find (is_elimination_bkey (inter_bkeys (ts_breaking_bond_keys G tsg) rng_bkeys) (inter_bkeys (ts_forming_bond_keys G tsg) rng_bkeys))
           rng_bkeys = Some bkey"
    and "1 < length (inter_bkeys (ts_forming_bond_keys G tsg) rng_bkeys)"
  shows "(\<exists>e. eliminations G tsg = Inl e) \<and>
         (reacting_rings_bond_keys G tsg = [rng_bkeys] \<and> enumerates (set_iter G) \<and>
          card bkey = 2 \<and> (\<forall>b \<in> set (inter_bkeys (ts_breaking_bond_keys G tsg) rng_bkeys). card b = 2 \<and> b \<noteq> bkey)
          \<longrightarrow> eliminations G tsg = Inl AssertionError)"
proof
  show "\<exists>e. eliminations G tsg = Inl e"
    unfolding eliminations_def
    by (rule efold_error[OF assms(1)]) (rule elimination_step_error[OF assms(2-4)])
next
  show "reacting_rings_bond_keys G tsg = [rng_bkeys] \<and> enumerates (set_iter G) \<and>
          card bkey = 2 \<and> (\<forall>b \<in> set (inter_bkeys (ts_breaking_bond_keys G tsg) rng_bkeys). card b = 2 \<and> b \<noteq> bkey)
          \<longrightarrow> eliminations G tsg = Inl AssertionError"
  proof
    assume h: "reacting_rings_bond_keys G tsg = [rng_bkeys] \<and> enumerates (set_iter G) \<and>
          card bkey = 2 \<and> (\<forall>b \<in> set (inter_bkeys (ts_breaking_bond_keys G tsg) rng_bkeys). card b = 2 \<and> b \<noteq> bkey)"
    then have st: "elimination_step G tsg rng_bkeys Map.empty = Inl AssertionError"
      using elimination_step_assertion[OF assms(2-4)] by blast
    from h have "reacting_rings_bond_keys G tsg = [rng_bkeys]" by blast
    then show "eliminations G tsg = Inl AssertionError"
      unfolding eliminations_def by (simp add: st)
  qed
qed

theorem eliminations_two_forming_bonds_raise_witness:
  "[{1, 2}, {2, 3}, {3, 4}, {4, 5}, {1, 5}] \<in> set (reacting_rings_bond_keys five_ring 0) \<and>
   inter_bkeys (ts_breaking_bond_keys five_ring 0) [{1, 2}, {2, 3}, {3, 4}, {4, 5}, {1, 5}] = [{2, 3}, {1, 5}] \<and>
   inter_bkeys (ts_forming_bond_keys five_ring 0) [{1, 2}, {2, 3}, {3, 4}, {4, 5}, {1, 5}] = [{3, 4}, {4, 5}] \<and>
   find (is_elimination_bkey [{2, 3}, {1, 5}] [{3, 4}, {4, 5}])
     [{1, 2}, {2, 3}, {3, 4}, {4, 5}, {1, 5}] = Some {1, 2} \<and>
   reacting_rings_bond_keys five_ring 0 = [[{1, 2}, {2, 3}, {3, 4}, {4, 5}, {1, 5}]] \<and>
   enumerates (set_iter five_ring) \<and>
   eliminations five_ring 0 = Inl AssertionError"
proof -
  let ?rng = "[{1, 2}, {2, 3}, {3, 4}, {4, 5}, {1 :: int, 5}]"
  have rb: "inter_bkeys (ts_breaking_bond_keys five_ring 0) ?rng = [{2, 3}, {1, 5}]"
    by (simp add: inter_bkeys_def five_ring_def blank_def)
  have rf: "inter_bkeys (ts_forming_bond_keys five_ring 0) ?rng = [{3, 4}, {4, 5}]"
    by (simp add: inter_bkeys_def five_ring_def blank_def)
  have fnd: "find (is_elimination_bkey [{2, 3}, {1, 5}] [{3, 4}, {4, 5}]) ?rng = Some {1, 2}"
    by (simp add: is_elimination_bkey_def doubleton_eq_iff)
  have rings: "reacting_rings_bond_keys five_ring 0 = [?rng]"
    by (simp add: five_ring_def blank_def)
  have en: "enumerates (set_iter five_ring)"
    by (simp add: five_ring_def blank_def enumerates_sorted)
  have cards: "card {1, 2 :: int} = 2 \<and> (\<forall>b \<in> set [{2, 3}, {1, 5 :: int}]. card b = 2 \<and> b \<noteq> {1, 2})"
    by (simp add: doubleton_eq_iff)
  have "eliminations five_ring 0 = Inl AssertionError"
    using eliminations_two_forming_bonds_raise[of ?rng five_ring 0 "{1, 2}"]
      rb rf fnd rings en cards by simp
  then show ?thesis using rb rf fnd rings en by simp
qed

section \<open>Stereo neighbours of an atom\<close>

text \<open>
  Claim C4, as the code has it. Let the call without \<open>self_apex\<close> return the sorted
  neighbour list (the neighbours and one \<open>None\<close> for each implicit hydrogen). With
  \<open>self_apex\<close> the call returns the atom's own key followed by that list when the list has
  exactly three entries, raises \<open>AssertionError\<close> when it has fewer than three, and returns
  the list as it is when it has four or more.
\<close>

theorem self_apex_by_neighbor_count:
  assumes "atom_stereo_sorted_neighbor_keys G gra key False pri_dct = Inr nkeys"
  shows "atom_stereo_sorted_neighbor_keys G gra key True pri_dct =
           (if length nkeys = 3 then Inr (Some key # nkeys)
            else if length nkeys < 3 then Inl AssertionError
            else Inr nkeys)"
proof -
  define gra0 where "gra0 = without_dummy_atoms G gra"
  define pri where "pri = (case pri_dct of None \<Rightarrow> local_stereo_priorities G gra0 | Some d \<Rightarrow> d)"
  define sorted_nkeys where "sorted_nkeys subst_dct nhyd =
     sort_key (sort_value pri)
       (map Some (set_iter G (atom_neighbor_atom_keys G
          (if key \<in> dom subst_dct then ts_reactants_graph_without_stereo G gra0 else gra0) key))
        @ replicate (nat nhyd) None)" for subst_dct :: "int \<rightharpoonup> int \<times> int" and nhyd
  have unfold: "atom_stereo_sorted_neighbor_keys G gra key self_apex pri_dct =
      ebind (substitutions G gra0) (\<lambda>subst_dct.
        ebind (getitem (atom_implicit_hydrogens G gra0) key) (\<lambda>nhyd.
          if self_apex \<and> length (sorted_nkeys subst_dct nhyd) < 4 then
            (if length (sorted_nkeys subst_dct nhyd) = 3
             then Inr (Some key # sorted_nkeys subst_dct nhyd) else Inl AssertionError)
          else Inr (sorted_nkeys subst_dct nhyd)))" for self_apex
    unfolding atom_stereo_sorted_neighbor_keys_def Let_def sorted_nkeys_def pri_def gra0_def ..
  from assms obtain subst_dct nhyd where s: "substitutions G gra0 = Inr subst_dct"
    and h: "getitem (atom_implicit_hydrogens G gra0) key = Inr nhyd"
    and n: "nkeys = sorted_nkeys subst_dct nhyd"
    unfolding unfold by (auto simp: ebind_def split: sum.splits)
  show ?thesis
    unfolding unfold by (simp add: s h ebind_def n[symmetric])
qed

lemmas neighbor_eval = atom_stereo_sorted_neighbor_keys_def substitutions_def atom_transfers_def
  by_key_def getitem_def ebind_def sort_value_def blank_def

lemma three_neighbors_run:
  "atom_stereo_sorted_neighbor_keys three_neighbors 0 1 False None = Inr [None, Some 3, Some 2]"
  by (simp add: neighbor_eval three_neighbors_def)

theorem self_apex_by_neighbor_count_witness:
  "atom_stereo_sorted_neighbor_keys three_neighbors 0 1 False None = Inr [None, Some 3, Some 2] \<and>
   atom_stereo_sorted_neighbor_keys three_neighbors 0 1 True None
     = Inr [Some 1, None, Some 3, Some 2]"
  using self_apex_by_neighbor_count[OF three_neighbors_run] three_neighbors_run by simp

text \<open>
  Claim C4 as stated fails for four neighbours: the count is not three, and the call with
  \<open>self_apex\<close> returns the four sorted neighbours instead of raising.
\<close>

theorem self_apex_four_neighbors_counterexample:
  "atom_stereo_sorted_neighbor_keys four_neighbors 0 1 False None
     = Inr [Some 5, Some 4, Some 3, Some 2] \<and>
   length [Some 5, Some 4, Some 3, Some (2 :: int)] \<noteq> 3 \<and>
   atom_stereo_sorted_neighbor_keys four_neighbors 0 1 True None
     = Inr [Some 5, Some 4, Some 3, Some 2]"
  by (simp add: neighbor_eval four_neighbors_def)

section \<open>Reacting electron direction\<close>

text \<open>
  Claim C8. For every TS graph and every key that is not among its reacting atoms,
  \<open>ts_reacting_electron_direction\<close> raises the \<open>AssertionError\<close> of "is not a reacting atom"
  and returns nothing.
\<close>

theorem electron_direction_rejects_non_reacting_atom:
  assumes "key \<notin> ts_reacting_atom_keys G tsg"
  shows "ts_reacting_electron_direction G tsg key = Inl AssertionError"
  using assms by (simp add: ts_reacting_electron_direction_def)

theorem electron_direction_rejects_non_reacting_atom_witness:
  "7 \<notin> ts_reacting_atom_keys one_reacting_atom 0 \<and>
   ts_reacting_electron_direction one_reacting_atom 0 7 = Inl AssertionError \<and>
   ts_reacting_electron_direction one_reacting_atom 0 2 = Inr (Some (2, 1), None, Some Pi)"
proof -
  have h: "7 \<notin> ts_reacting_atom_keys one_reacting_atom 0"
    by (simp add: one_reacting_atom_def blank_def)
  have "ts_reacting_electron_direction one_reacting_atom 0 2 = Inr (Some (2, 1), None, Some Pi)"
    by (simp add: ts_reacting_electron_direction_def one_reacting_atom_def blank_def)
  then show ?thesis using h electron_direction_rejects_non_reacting_atom[OF h] by simp
qed

section \<open>Vinyl additions\<close>

lemma ebind_eq_Inr: "(ebind m f = Inr y) = (\<exists>x. m = Inr x \<and> f x = Inr y)"
  by (cases m) (simp_all add: ebind_def)

lemma vinyl_step_result:
  assumes "vinyl_step G t (a, b) d = Inr d'"
  shows "(if b \<in> bond_stereo_keys G t \<and> top_neighbor_differs G t a b
          then \<exists>par. stored_bond_parity G t b = Some par \<and> d' = d(b \<mapsto> \<not> par)
          else d' = d)"
proof (cases "b \<in> bond_stereo_keys G t")
  case False
  with assms show ?thesis by (simp add: vinyl_step_def Let_def)
next
  case True
  from assms True obtain par vin_nkey nkeys_ts x nkeys_r y where
    par: "getitem (filter_by_value_not_none (stereo_parities G t)) (BKey b) = Inr par"
    and nk: "unpack1 (b - {a}) = Inr vin_nkey"
    and ts: "core_bond_stereo_sorted_neighbor_keys G t a vin_nkey (local_stereo_priorities G t)
               = Inr (nkeys_ts, x)"
    and r: "core_bond_stereo_sorted_neighbor_keys G (ts_reactants_graph_without_stereo G t) a vin_nkey
               (local_stereo_priorities G t) = Inr (nkeys_r, y)"
    and res: "(if nkeys_r \<noteq> [] then
                 (if nkeys_ts = [] then Inl IndexError
                  else if last nkeys_r \<noteq> last nkeys_ts then Inr (d(b \<mapsto> \<not> par))
                  else Inr d)
               else Inr d) = Inr d'"
    unfolding vinyl_step_def Let_def by (auto simp: ebind_eq_Inr)
  have sp: "stored_bond_parity G t b = Some par"
    using par by (auto simp: getitem_def stored_bond_parity_def split: option.splits)
  have el: "the_elem (b - {a}) = vin_nkey"
    using nk by (auto simp: unpack1_def split: if_splits)
  have df: "top_neighbor_differs G t a b \<longleftrightarrow>
             nkeys_r \<noteq> [] \<and> nkeys_ts \<noteq> [] \<and> last nkeys_r \<noteq> last nkeys_ts"
    by (simp add: top_neighbor_differs_def Let_def el ts r)
  show ?thesis using True res sp by (auto simp: df split: if_splits)
qed

lemma efold_vinyl:
  assumes "efold (vinyl_step G t) items d = Inr d'"
  shows "d' k = (if k \<in> bond_stereo_keys G t \<and>
                    list_ex (\<lambda>(a, b). b = k \<and> top_neighbor_differs G t a b) items
                 then map_option Not (stored_bond_parity G t k) else d k) \<and>
         (k \<in> bond_stereo_keys G t \<and>
            list_ex (\<lambda>(a, b). b = k \<and> top_neighbor_differs G t a b) items
          \<longrightarrow> stored_bond_parity G t k \<noteq> None)"
  using assms
proof (induction items arbitrary: d)
  case Nil
  then show ?case by simp
next
  case (Cons item items)
  obtain a b where item: "item = (a, b)" by (cases item)
  from Cons.prems obtain d1 where st: "vinyl_step G t (a, b) d = Inr d1"
    and rest: "efold (vinyl_step G t) items d1 = Inr d'"
    by (auto simp: item split: sum.splits)
  note ih = Cons.IH[OF rest]
  note sr = vinyl_step_result[OF st]
  show ?case
  proof (cases "b \<in> bond_stereo_keys G t \<and> top_neighbor_differs G t a b")
    case False
    with sr have "d1 = d" by simp
    with ih False show ?thesis by (auto simp: item)
  next
    case True
    with sr obtain par where p: "stored_bond_parity G t b = Some par" and d1: "d1 = d(b \<mapsto> \<not> par)"
      by auto
    show ?thesis
    proof (cases "k = b")
      case True
      with ih p d1 \<open>b \<in> bond_stereo_keys G t \<and> top_neighbor_differs G t a b\<close>
      show ?thesis by (simp add: item)
    next
      case False
      with ih d1 show ?thesis by (simp add: item)
    qed
  qed
qed

text \<open>
  Claim C10. When \<open>vinyl_addition_local_parities\<close> returns, a bond has an entry exactly when
  it is a vinyl stereo bond whose highest-priority neighbour on the reactants view differs
  from the one on the TS view, and every entry is the negation of the stored parity of its
  bond. A vinyl stereo bond whose highest-priority neighbour is unchanged has no entry.
\<close>

theorem vinyl_addition_flipped_entries_only:
  assumes "vinyl_addition_local_parities G loc_tsg = Inr par_dct"
  shows "par_dct vin_bkey =
           (if flipped_vinyl_bond G loc_tsg vin_bkey
            then map_option Not (stored_bond_parity G loc_tsg vin_bkey) else None) \<and>
         (\<forall>v. par_dct vin_bkey = Some v \<longrightarrow>
            (\<exists>par. stored_bond_parity G loc_tsg vin_bkey = Some par \<and> v = (\<not> par)))"
proof -
  from assms have
    "efold (vinyl_step G loc_tsg)
       (vinyl_radical_atom_bond_keys G (ts_reactants_graph_without_stereo G loc_tsg)) Map.empty
     = Inr par_dct"
    by (simp add: vinyl_addition_local_parities_def Let_def)
  from efold_vinyl[OF this, of vin_bkey] show ?thesis
    unfolding flipped_vinyl_bond_def by (auto split: if_splits)
qed

lemmas vinyl_eval = vinyl_addition_local_parities_def vinyl_step_def getitem_def
  filter_by_value_not_none_def unpack1_def ebind_def insert_Diff_if doubleton_eq_iff blank_def

lemma vinyl_example_run:
  "vinyl_addition_local_parities vinyl_example 0 = Inr [{1, 2} \<mapsto> False]"
  by (simp add: vinyl_eval vinyl_example_def)

theorem vinyl_addition_flipped_entries_only_witness:
  "vinyl_addition_local_parities vinyl_example 0 = Inr [{1, 2} \<mapsto> False] \<and>
   flipped_vinyl_bond vinyl_example 0 {1, 2} \<and>
   stored_bond_parity vinyl_example 0 {1, 2} = Some True \<and>
   \<not> flipped_vinyl_bond vinyl_example 0 {5, 6} \<and>
   [{1, 2} \<mapsto> False] {5, 6 :: int} = None"
proof -
  have sp: "stored_bond_parity vinyl_example 0 {1, 2} = Some True"
    by (simp add: stored_bond_parity_def filter_by_value_not_none_def vinyl_example_def blank_def
        doubleton_eq_iff)
  have "[{1, 2 :: int} \<mapsto> False] {1, 2} = Some False" by simp
  with vinyl_addition_flipped_entries_only[OF vinyl_example_run, of "{1, 2}"]
  have f1: "flipped_vinyl_bond vinyl_example 0 {1, 2}" by (simp split: if_splits)
  have "{1, 2} \<noteq> {5, 6 :: int}" by (simp add: doubleton_eq_iff)
  then have n: "[{1, 2 :: int} \<mapsto> False] {5, 6} = None" by simp
  have "stored_bond_parity vinyl_example 0 {5, 6} = Some False"
    by (simp add: stored_bond_parity_def filter_by_value_not_none_def vinyl_example_def blank_def
        doubleton_eq_iff)
  with n vinyl_addition_flipped_entries_only[OF vinyl_example_run, of "{5, 6}"]
  have f2: "\<not> flipped_vinyl_bond vinyl_example 0 {5, 6}" by (simp split: if_splits)
  show ?thesis using vinyl_example_run sp f1 f2 n by simp
qed

section \<open>Constrained 1,2-insertions\<close>

lemma getitem_eq_Inr: "(getitem d k = Inr v) = (d k = Some v)"
  by (simp add: getitem_def split: option.splits)

lemma xnor_of_xnors: "(\<not> ((\<not> (a \<noteq> c)) \<noteq> (\<not> (b \<noteq> d)))) = (\<not> ((a \<noteq> c) \<noteq> (b \<noteq> d)))"
  by blast

lemma constrained_step_result:
  assumes "constrained_step G t bkey d = Inr d'"
  shows "d' = d \<or> (\<exists>v. constrained_bond_parity G t bkey v \<and> d' = d(bkey \<mapsto> v))"
proof (cases "d' = d")
  case True
  then show ?thesis by simp
next
  case False
  from assms False obtain key1 key2 where it: "set_iter G bkey = [key1, key2]"
    unfolding constrained_step_def Let_def
    by (auto split: if_splits list.splits)
  from assms False it obtain key0 key3 p_a1 p_a2 nk1s nk2s p_1 p_2 where
    "forming_partner (ts_forming_bond_keys G t) key1 = Inr key0"
    "forming_partner (ts_forming_bond_keys G t) key2 = Inr key3"
    "filter_by_value_not_none (stereo_parities G t) (AKey key1) = Some p_a1"
    "filter_by_value_not_none (stereo_parities G t) (AKey key2) = Some p_a2"
    "priority_sorted_neighbors G (atoms_neighbor_atom_keys G t) (local_stereo_priorities G t) key1
       = Inr nk1s"
    "priority_sorted_neighbors G (atoms_neighbor_atom_keys G t) (local_stereo_priorities G t) key2
       = Inr nk2s"
    "is_even_permutation nk1s (move_items_to_front nk1s [key2, key0]) = Inr p_1"
    "is_even_permutation nk2s (move_items_to_front nk2s [key1, key3]) = Inr p_2"
    "d' = d(bkey \<mapsto> \<not> ((\<not> (p_a1 \<noteq> p_1)) \<noteq> (\<not> (p_a2 \<noteq> p_2))))"
    unfolding constrained_step_def Let_def
    by (simp add: ebind_eq_Inr getitem_eq_Inr split: if_splits) blast
  then show ?thesis
    unfolding constrained_bond_parity_def xnor_of_xnors using it by blast
qed

lemma efold_constrained:
  assumes "efold (constrained_step G t) bkeys d = Inr d'" "d' bkey = Some v"
  shows "d bkey = Some v \<or> constrained_bond_parity G t bkey v"
  using assms
proof (induction bkeys arbitrary: d)
  case Nil
  then show ?case by simp
next
  case (Cons b bs)
  from Cons.prems(1) obtain d1 where st: "constrained_step G t b d = Inr d1"
    and rest: "efold (constrained_step G t) bs d1 = Inr d'"
    by (auto split: sum.splits)
  from Cons.IH[OF rest Cons.prems(2)] consider "d1 bkey = Some v" | "constrained_bond_parity G t bkey v"
    by blast
  then show ?case
  proof cases
    case 1
    from constrained_step_result[OF st] show ?thesis
    proof
      assume "d1 = d"
      with 1 show ?thesis by simp
    next
      assume "\<exists>w. constrained_bond_parity G t b w \<and> d1 = d(b \<mapsto> w)"
      then obtain w where w: "constrained_bond_parity G t b w" and d1: "d1 = d(b \<mapsto> w)" by blast
      show ?thesis
      proof (cases "bkey = b")
        case True
        with 1 d1 have "w = v" by simp
        with w True show ?thesis by simp
      next
        case False
        with 1 d1 show ?thesis by simp
      qed
    qed
  next
    case 2
    then show ?thesis by simp
  qed
qed

text \<open>
  Claim C5. Every entry that \<open>constrained_1_2_insertion_local_parities\<close> returns for a bond
  is \<open>NOT((p_a1 XOR p_1) XOR (p_a2 XOR p_2))\<close>, where \<open>p_a1\<close> and \<open>p_a2\<close> are the stored
  parities of the two atoms of the bond and \<open>p_1\<close> and \<open>p_2\<close> are the parities of the
  permutations that move the other atom of the bond and the forming-bond partner to the
  front of the priority-sorted neighbours of each atom.
\<close>

theorem constrained_insertion_parity_formula:
  assumes "constrained_1_2_insertion_local_parities G loc_tsg = Inr par_dct"
    and "par_dct bkey = Some p_b12"
  shows "\<exists>key1 key2 key0 key3 p_a1 p_a2 nk1s nk2s p_1 p_2.
        set_iter G bkey = [key1, key2] \<and>
        forming_partner (ts_forming_bond_keys G loc_tsg) key1 = Inr key0 \<and>
        forming_partner (ts_forming_bond_keys G loc_tsg) key2 = Inr key3 \<and>
        filter_by_value_not_none (stereo_parities G loc_tsg) (AKey key1) = Some p_a1 \<and>
        filter_by_value_not_none (stereo_parities G loc_tsg) (AKey key2) = Some p_a2 \<and>
        priority_sorted_neighbors G (atoms_neighbor_atom_keys G loc_tsg)
          (local_stereo_priorities G loc_tsg) key1 = Inr nk1s \<and>
        priority_sorted_neighbors G (atoms_neighbor_atom_keys G loc_tsg)
          (local_stereo_priorities G loc_tsg) key2 = Inr nk2s \<and>
        is_even_permutation nk1s (move_items_to_front nk1s [key2, key0]) = Inr p_1 \<and>
        is_even_permutation nk2s (move_items_to_front nk2s [key1, key3]) = Inr p_2 \<and>
        p_b12 = (\<not> ((p_a1 \<noteq> p_1) \<noteq> (p_a2 \<noteq> p_2)))"
proof -
  from assms(1) have
    "efold (constrained_step G loc_tsg)
       (rigid_planar_bond_keys G (ts_reactants_graph_without_stereo G loc_tsg)) Map.empty
     = Inr par_dct"
    by (simp add: constrained_1_2_insertion_local_parities_def Let_def)
  from efold_constrained[OF this assms(2)] have "constrained_bond_parity G loc_tsg bkey p_b12"
    by simp
  then show ?thesis unfolding constrained_bond_parity_def .
qed

lemma nk1s_run:
  "priority_sorted_neighbors insertion_example (atoms_neighbor_atom_keys insertion_example 0)
     (local_stereo_priorities insertion_example 0) 1 = Inr [3, 4, 5, 2]"
  by (simp add: priority_sorted_neighbors_def py_sorted_def getitem_def ebind_def
      insertion_example_def blank_def)

lemma nk2s_run:
  "priority_sorted_neighbors insertion_example (atoms_neighbor_atom_keys insertion_example 0)
     (local_stereo_priorities insertion_example 0) 2 = Inr [1, 6, 7, 8]"
  by (simp add: priority_sorted_neighbors_def py_sorted_def getitem_def ebind_def
      insertion_example_def blank_def)

lemma p_1_run: "is_even_permutation [3, 4, 5, 2 :: int] (move_items_to_front [3, 4, 5, 2] [2, 3]) = Inr False"
  by (simp add: is_even_permutation_def move_items_to_front_def inversions_def position_def
      insert_commute)

lemma p_2_run: "is_even_permutation [1, 6, 7, 8 :: int] (move_items_to_front [1, 6, 7, 8] [1, 6]) = Inr True"
  by (simp add: is_even_permutation_def move_items_to_front_def inversions_def position_def)

lemma partner_run:
  "forming_partner (ts_forming_bond_keys insertion_example 0) 1 = Inr 3"
  "forming_partner (ts_forming_bond_keys insertion_example 0) 2 = Inr 6"
  by (simp_all add: forming_partner_def unpack1_def insertion_example_def blank_def insert_Diff_if)

lemma insertion_example_run:
  "constrained_1_2_insertion_local_parities insertion_example 0 = Inr [{1, 2} \<mapsto> True]"
proof -
  have it: "set_iter insertion_example {1, 2} = [1, 2]"
    by (simp add: insertion_example_def blank_def)
  have par: "filter_by_value_not_none (stereo_parities insertion_example 0) (AKey 1) = Some True"
    "filter_by_value_not_none (stereo_parities insertion_example 0) (AKey 2) = Some False"
    by (simp_all add: filter_by_value_not_none_def insertion_example_def blank_def)
  have rp: "rigid_planar_bond_keys insertion_example n = [{1, 2}]" for n
    by (simp add: insertion_example_def blank_def)
  have rk: "forming_rings_atom_keys insertion_example 0 = [{1, 2, 6, 3}]"
    by (simp add: insertion_example_def blank_def)
  have c: "AKey 1 \<in> dom (filter_by_value_not_none (stereo_parities insertion_example 0))"
    "AKey 2 \<in> dom (filter_by_value_not_none (stereo_parities insertion_example 0))"
    using par by (auto intro: domI)
  have step: "constrained_step insertion_example 0 {1, 2} Map.empty = Inr [{1, 2} \<mapsto> True]"
    unfolding constrained_step_def Let_def
    by (simp add: c it partner_run ebind_def rk par nk1s_run nk2s_run p_1_run p_2_run
        getitem_def)
  show ?thesis
    unfolding constrained_1_2_insertion_local_parities_def Let_def rp
    by (simp add: step)
qed

theorem constrained_insertion_parity_formula_witness:
  "constrained_1_2_insertion_local_parities insertion_example 0 = Inr [{1, 2} \<mapsto> True] \<and>
   [{1, 2 :: int} \<mapsto> True] {1, 2} = Some True \<and>
   (\<exists>key1 key2 key0 key3 p_a1 p_a2 nk1s nk2s p_1 p_2.
        set_iter insertion_example {1, 2} = [key1, key2] \<and>
        forming_partner (ts_forming_bond_keys insertion_example 0) key1 = Inr key0 \<and>
        forming_partner (ts_forming_bond_keys insertion_example 0) key2 = Inr key3 \<and>
        filter_by_value_not_none (stereo_parities insertion_example 0) (AKey key1) = Some p_a1 \<and>
        filter_by_value_not_none (stereo_parities insertion_example 0) (AKey key2) = Some p_a2 \<and>
        priority_sorted_neighbors insertion_example (atoms_neighbor_atom_keys insertion_example 0)
          (local_stereo_priorities insertion_example 0) key1 = Inr nk1s \<and>
        priority_sorted_neighbors insertion_example (atoms_neighbor_atom_keys insertion_example 0)
          (local_stereo_priorities insertion_example 0) key2 = Inr nk2s \<and>
        is_even_permutation nk1s (move_items_to_front nk1s [key2, key0]) = Inr p_1 \<and>
        is_even_permutation nk2s (move_items_to_front nk2s [key1, key3]) = Inr p_2 \<and>
        True = (\<not> ((p_a1 \<noteq> p_1) \<noteq> (p_a2 \<noteq> p_2))))"
proof -
  have e: "[{1, 2 :: int} \<mapsto> True] {1, 2} = Some True" by simp
  show ?thesis
    using insertion_example_run e
      constrained_insertion_parity_formula[OF insertion_example_run e]
    by simp
qed

section \<open>Sn2 reversal flips\<close>

lemma position_Nil: "position [] u = 0"
  by (simp add: position_def)

lemma position_Cons: "position (x # xs) u = (if x = u then 0 else Suc (position xs u))"
  by (simp add: position_def)

lemma position_less: "u \<in> set xs \<Longrightarrow> position xs u < length xs"
  by (induction xs) (auto simp: position_Cons)

lemma position_map_inj: "inj f \<Longrightarrow> position (map f xs) (f v) = position xs v"
  by (induction xs) (auto simp: position_Nil position_Cons dest: injD)

lemma set_inversions: "set (inversions xs ys) = inversion_set xs ys"
  by (auto simp: inversions_def inversion_set_def)

lemma length_inversions: "distinct xs \<Longrightarrow> length (inversions xs ys) = card (inversion_set xs ys)"
proof -
  assume "distinct xs"
  then have "distinct (inversions xs ys)"
    by (simp add: inversions_def distinct_product)
  then show ?thesis using distinct_card[of "inversions xs ys"] by (simp add: set_inversions)
qed

lemma inversion_set_swap:
  assumes "set xs = set ys"
  shows "inversion_set ys xs = prod.swap ` inversion_set xs ys"
proof
  show "inversion_set ys xs \<subseteq> prod.swap ` inversion_set xs ys"
  proof
    fix p assume p: "p \<in> inversion_set ys xs"
    obtain a b where ab: "p = (a, b)" by (cases p)
    with p assms have "(b, a) \<in> inversion_set xs ys" by (simp add: inversion_set_def)
    then have "prod.swap (b, a) \<in> prod.swap ` inversion_set xs ys" by (rule imageI)
    then show "p \<in> prod.swap ` inversion_set xs ys" by (simp add: ab)
  qed
next
  show "prod.swap ` inversion_set xs ys \<subseteq> inversion_set ys xs"
  proof
    fix p assume "p \<in> prod.swap ` inversion_set xs ys"
    then obtain q where q: "q \<in> inversion_set xs ys" and pq: "p = prod.swap q" by blast
    obtain a b where ab: "q = (a, b)" by (cases q)
    with q assms have "(b, a) \<in> inversion_set ys xs" by (simp add: inversion_set_def)
    then show "p \<in> inversion_set ys xs" by (simp add: pq ab)
  qed
qed

lemma inversion_set_map:
  assumes "inj f"
  shows "inversion_set (map f xs) (map f ys) = map_prod f f ` inversion_set xs ys"
proof
  show "inversion_set (map f xs) (map f ys) \<subseteq> map_prod f f ` inversion_set xs ys"
  proof
    fix p assume p: "p \<in> inversion_set (map f xs) (map f ys)"
    obtain a' b' where ab: "p = (a', b')" by (cases p)
    from p ab obtain a b where a: "a \<in> set xs" "a' = f a" and b: "b \<in> set xs" "b' = f b"
      by (auto simp: inversion_set_def)
    with p ab have "(a, b) \<in> inversion_set xs ys"
      by (simp add: inversion_set_def position_map_inj[OF assms])
    then show "p \<in> map_prod f f ` inversion_set xs ys"
      using ab a b by (force simp: image_iff)
  qed
next
  show "map_prod f f ` inversion_set xs ys \<subseteq> inversion_set (map f xs) (map f ys)"
    by (auto simp: inversion_set_def position_map_inj[OF assms])
qed

lemma inversions_swap_length:
  assumes "distinct xs" "distinct ys" "set xs = set ys"
  shows "length (inversions ys xs) = length (inversions xs ys)"
proof -
  have "inj_on prod.swap (inversion_set xs ys)" by (rule inj_onI) auto
  then have "card (prod.swap ` inversion_set xs ys) = card (inversion_set xs ys)"
    by (rule card_image)
  then show ?thesis
    by (simp add: length_inversions[OF assms(1)] length_inversions[OF assms(2)]
        inversion_set_swap[OF assms(3)])
qed

lemma inversions_map_length:
  assumes "inj f" "distinct xs"
  shows "length (inversions (map f xs) (map f ys)) = length (inversions xs ys)"
proof -
  have "inj (map_prod f f)" using assms(1) by (simp add: prod.inj_map)
  then have "inj_on (map_prod f f) (inversion_set xs ys)"
    by (rule inj_on_subset) simp
  then have c: "card (map_prod f f ` inversion_set xs ys) = card (inversion_set xs ys)"
    by (rule card_image)
  have "inj_on f (set xs)" using assms(1) by (rule inj_on_subset) simp
  then have d: "distinct (map f xs)" using assms(2) by (simp add: distinct_map)
  show ?thesis
    by (simp add: length_inversions[OF d] length_inversions[OF assms(2)]
        inversion_set_map[OF assms(1)] c)
qed

lemma inj_exchange: "inj (exchange u v)"
  by (auto simp: inj_def exchange_def split: if_splits)

lemma exchange_twice: "map (exchange u v) (map (exchange u v) xs) = xs"
  by (induction xs) (auto simp: exchange_def)

lemma exchange_other: "x \<noteq> u \<Longrightarrow> x \<noteq> v \<Longrightarrow> exchange u v x = x"
  by (simp add: exchange_def)

lemma exchange_left: "exchange u v u = v"
  by (simp add: exchange_def)

lemma map_exchange_absent: "u \<notin> set xs \<Longrightarrow> v \<notin> set xs \<Longrightarrow> map (exchange u v) xs = xs"
  by (induction xs) (auto simp: exchange_other)

lemma update_is_exchange:
  assumes "distinct xs" "u \<in> set xs" "distinct (xs[position xs u := v])"
  shows "xs[position xs u := v] = map (exchange u v) xs"
  using assms
proof (induction xs)
  case Nil
  then show ?case by simp
next
  case (Cons x xs)
  show ?case
  proof (cases "x = u")
    case True
    with Cons.prems have "u \<notin> set xs" "v \<notin> set xs" by (auto simp: position_Cons)
    then have "map (exchange u v) xs = xs" by (rule map_exchange_absent)
    with True show ?thesis by (simp add: position_Cons exchange_left)
  next
    case False
    with Cons.prems have u: "u \<in> set xs" and d: "distinct xs"
      and du: "distinct (xs[position xs u := v])"
      and nx: "x \<notin> set (xs[position xs u := v])"
      by (auto simp: position_Cons)
    have "v \<in> set (xs[position xs u := v])"
      using position_less[OF u] by (simp add: set_update_memI)
    with nx have "x \<noteq> v" by auto
    with False Cons.IH[OF d u du] show ?thesis
      by (simp add: position_Cons exchange_other)
  qed
qed

lemma identity_is_even: "distinct xs \<Longrightarrow> is_even_permutation xs xs = Inr True"
proof -
  assume d: "distinct xs"
  have "inversion_set xs xs = {}" by (auto simp: inversion_set_def)
  then show ?thesis by (simp add: is_even_permutation_def d length_inversions[OF d])
qed

lemma sn2_step_iff:
  "sn2_step G tsg item d = Inr d' \<longleftrightarrow>
     (\<exists>rflip. site_flip G tsg item rflip \<and> d' = d(fst item \<mapsto> rflip))"
  by (cases item) (auto simp: sn2_step_def site_flip_def ebind_eq_Inr Let_def)

lemma efold_sn2:
  assumes "efold (sn2_step G tsg) items d = Inr d'" "distinct (map fst items)"
  shows "(\<forall>item \<in> set items. \<exists>rflip. site_flip G tsg item rflip \<and> d' (fst item) = Some rflip) \<and>
         (\<forall>k. k \<notin> fst ` set items \<longrightarrow> d' k = d k)"
  using assms
proof (induction items arbitrary: d)
  case Nil
  then show ?case by simp
next
  case (Cons item items)
  from Cons.prems(1) obtain d1 where st: "sn2_step G tsg item d = Inr d1"
    and rest: "efold (sn2_step G tsg) items d1 = Inr d'"
    by (auto split: sum.splits)
  from st obtain rflip where sf: "site_flip G tsg item rflip" and d1: "d1 = d(fst item \<mapsto> rflip)"
    unfolding sn2_step_iff by blast
  from Cons.prems(2) have dist: "distinct (map fst items)" and fresh: "fst item \<notin> fst ` set items"
    by auto
  note ih = Cons.IH[OF rest dist]
  have here: "d' (fst item) = Some rflip" using ih fresh d1 by simp
  have others: "\<forall>k. k \<notin> fst ` set (item # items) \<longrightarrow> d' k = d k"
    using ih d1 by auto
  show ?case using ih sf here others by auto
qed

lemma site_flip_reversed:
  assumes rr: "ts_reverse G (ts_reverse G tsg) = tsg"
    and f: "site_flip G tsg (k, don_key, acc_key) p"
    and r: "site_flip G (ts_reverse G tsg) (k, acc_key, don_key) q"
  shows "q = p"
proof -
  let ?d = "Some don_key" and ?a = "Some acc_key"
  from f obtain A i B where A: "core_atom_stereo_sorted_neighbor_keys G tsg k = Inr A"
    and i: "list_index A ?d = Inr i"
    and B: "core_atom_stereo_sorted_neighbor_keys G (ts_reverse G tsg) k = Inr B"
    and p: "is_even_permutation (A[i := ?a]) B = Inr p"
    by (auto simp: site_flip_def)
  from r rr A B obtain j where j: "list_index B ?a = Inr j"
    and q: "is_even_permutation (B[j := ?d]) A = Inr q"
    by (auto simp: site_flip_def)
  from i have dA: "?d \<in> set A" and i': "i = position A ?d"
    by (auto simp: list_index_def split: if_splits)
  from j have aB: "?a \<in> set B" and j': "j = position B ?a"
    by (auto simp: list_index_def split: if_splits)
  from p have p1: "distinct (A[i := ?a])" and p2: "distinct B" and p3: "set (A[i := ?a]) = set B"
    and pv: "p = even (length (inversions (A[i := ?a]) B))"
    by (auto simp: is_even_permutation_def split: if_splits)
  from q have q1: "distinct (B[j := ?d])" and q2: "distinct A" and q3: "set (B[j := ?d]) = set A"
    and qv: "q = even (length (inversions (B[j := ?d]) A))"
    by (auto simp: is_even_permutation_def split: if_splits)
  let ?f = "exchange ?d ?a"
  have A': "A[i := ?a] = map ?f A"
    unfolding i' by (rule update_is_exchange[OF q2 dA p1[unfolded i']])
  have "B[j := ?d] = map (exchange ?a ?d) B"
    unfolding j' by (rule update_is_exchange[OF p2 aB q1[unfolded j']])
  moreover have "exchange ?a ?d = ?f" by (auto simp: exchange_def fun_eq_iff)
  ultimately have B': "B[j := ?d] = map ?f B" by simp
  have B0: "B = map ?f (B[j := ?d])" unfolding B' by (rule exchange_twice[symmetric])
  have "length (inversions (A[i := ?a]) B) = length (inversions (map ?f A) (map ?f (B[j := ?d])))"
    using A' B0 by simp
  also have "\<dots> = length (inversions A (B[j := ?d]))"
    by (rule inversions_map_length[OF inj_exchange q2])
  also have "\<dots> = length (inversions (B[j := ?d]) A)"
    by (rule inversions_swap_length[OF q1 q2 q3])
  finally show ?thesis by (simp add: pv qv)
qed

text \<open>
  Claim C7. Let the reversed TS graph be as the data model says. When
  \<open>sn2_local_stereo_reversal_flips\<close> returns for the TS graph and for its reverse, the two
  dictionaries have the same flag at every key, and their keys are the Sn2 sites.
\<close>

theorem sn2_flips_direction_independent:
  assumes "reversal_contract G tsg"
    and "sn2_local_stereo_reversal_flips G tsg = Inr rflip_dct"
    and "sn2_local_stereo_reversal_flips G (ts_reverse G tsg) = Inr rflip_dct_rev"
  shows "(\<forall>k. rflip_dct_rev k = rflip_dct k) \<and>
         dom rflip_dct = fst ` set (substitution_atom_transfers G tsg)"
proof -
  let ?items = "substitution_atom_transfers G tsg"
  let ?ritems = "substitution_atom_transfers G (ts_reverse G tsg)"
  note c = assms(1)[unfolded reversal_contract_def]
  note rr = c[THEN conjunct1]
  note d1 = c[THEN conjunct2, THEN conjunct1]
  note d2 = c[THEN conjunct2, THEN conjunct2, THEN conjunct1]
  note sw = c[THEN conjunct2, THEN conjunct2, THEN conjunct2]
  note fw = efold_sn2[OF assms(2)[unfolded sn2_local_stereo_reversal_flips_def] d1]
  note bw = efold_sn2[OF assms(3)[unfolded sn2_local_stereo_reversal_flips_def] d2]
  have keys: "fst ` set ?ritems = fst ` set ?items"
    unfolding sw by force
  have eq: "rflip_dct_rev k = rflip_dct k" for k
  proof (cases "k \<in> fst ` set ?items")
    case False
    then show ?thesis using fw bw keys by simp
  next
    case True
    then obtain don_key acc_key where it: "(k, don_key, acc_key) \<in> set ?items" by force
    then have rit: "(k, acc_key, don_key) \<in> set ?ritems" unfolding sw by force
    from fw it obtain p where p: "site_flip G tsg (k, don_key, acc_key) p" "rflip_dct k = Some p"
      by force
    from bw rit obtain q where q: "site_flip G (ts_reverse G tsg) (k, acc_key, don_key) q"
      "rflip_dct_rev k = Some q"
      by force
    from site_flip_reversed[OF rr p(1) q(1)] p(2) q(2) show ?thesis by simp
  qed
  have "dom rflip_dct = fst ` set ?items"
  proof
    show "dom rflip_dct \<subseteq> fst ` set ?items"
    proof
      fix k assume "k \<in> dom rflip_dct"
      then show "k \<in> fst ` set ?items" using fw by (cases "k \<in> fst ` set ?items") auto
    qed
  next
    show "fst ` set ?items \<subseteq> dom rflip_dct"
    proof
      fix k assume "k \<in> fst ` set ?items"
      then obtain item where "item \<in> set ?items" "k = fst item" by blast
      with fw show "k \<in> dom rflip_dct" by force
    qed
  qed
  with eq show ?thesis by simp
qed

lemmas sn2_eval = sn2_local_stereo_reversal_flips_def sn2_step_def list_index_def position_def
  is_even_permutation_def inversions_def ebind_def insert_commute blank_def

lemma sn2_example_forward:
  "sn2_local_stereo_reversal_flips sn2_example 0 = Inr [1 \<mapsto> False]"
  by (simp add: sn2_eval sn2_example_def)

lemma sn2_example_backward:
  "sn2_local_stereo_reversal_flips sn2_example (ts_reverse sn2_example 0) = Inr [1 \<mapsto> False]"
  by (simp add: sn2_eval sn2_example_def)

theorem sn2_flips_direction_independent_witness:
  "reversal_contract sn2_example 0 \<and>
   sn2_local_stereo_reversal_flips sn2_example 0 = Inr [1 \<mapsto> False] \<and>
   sn2_local_stereo_reversal_flips sn2_example (ts_reverse sn2_example 0) = Inr [1 \<mapsto> False] \<and>
   dom [1 \<mapsto> False] = fst ` set (substitution_atom_transfers sn2_example 0)"
proof -
  have c: "reversal_contract sn2_example 0"
    by (simp add: reversal_contract_def sn2_example_def blank_def)
  show ?thesis
    using c sn2_example_forward sn2_example_backward
      sn2_flips_direction_independent[OF c sn2_example_forward sn2_example_backward]
    by simp
qed

section \<open>The modelled parity is the parity of the transpositions\<close>

text \<open>
  The order of a sequence with itself is even (\<open>identity_is_even\<close>), and exchanging two
  neighbouring entries of the second sequence turns an even reordering into an odd one and
  the other way round. So \<open>is_even_permutation\<close>, defined by counting inversions, is the
  parity of the number of transpositions that the glossary speaks of.
\<close>

lemma position_append:
  "position (us @ ws) x = (if x \<in> set us then position us x else length us + position ws x)"
  by (induction us) (auto simp: position_Nil position_Cons)

lemma nth_position: "x \<in> set xs \<Longrightarrow> xs ! position xs x = x"
  by (induction xs) (auto simp: position_Cons)

lemma position_inj: "a \<in> set xs \<Longrightarrow> b \<in> set xs \<Longrightarrow> position xs a = position xs b \<Longrightarrow> a = b"
  using nth_position by metis

lemma finite_inversion_set: "finite (inversion_set xs ys)"
proof -
  have "inversion_set xs ys \<subseteq> set xs \<times> set xs" by (auto simp: inversion_set_def)
  then show ?thesis by (rule finite_subset) simp
qed

lemma adjacent_positions:
  assumes "distinct (us @ a # b # vs)"
  shows "position (us @ b # a # vs) a = Suc (length us)"
    and "position (us @ b # a # vs) b = length us"
    and "position (us @ a # b # vs) a = length us"
    and "position (us @ a # b # vs) b = Suc (length us)"
    and "x \<noteq> a \<Longrightarrow> x \<noteq> b \<Longrightarrow> position (us @ b # a # vs) x = position (us @ a # b # vs) x"
  using assms by (auto simp: position_append position_Cons)

lemma adjacent_order_kept:
  assumes d: "distinct (us @ a # b # vs)"
    and x: "x \<in> set (us @ a # b # vs)" and y: "y \<in> set (us @ a # b # vs)"
    and ne: "(x, y) \<noteq> (a, b)" "(x, y) \<noteq> (b, a)"
  shows "position (us @ b # a # vs) y < position (us @ b # a # vs) x \<longleftrightarrow>
         position (us @ a # b # vs) y < position (us @ a # b # vs) x"
  using assms position_less[of x us] position_less[of y us]
  by (auto simp: position_append position_Cons)

lemma adjacent_inversion_set:
  assumes dx: "distinct xs" and d: "distinct (us @ a # b # vs)"
    and s: "set xs = set (us @ a # b # vs)"
  shows "inversion_set xs (us @ b # a # vs) =
           (if position xs a < position xs b
            then insert (a, b) (inversion_set xs (us @ a # b # vs))
            else inversion_set xs (us @ a # b # vs) - {(b, a)})"
    and "position xs a < position xs b \<Longrightarrow> (a, b) \<notin> inversion_set xs (us @ a # b # vs)"
    and "\<not> position xs a < position xs b \<Longrightarrow> (b, a) \<in> inversion_set xs (us @ a # b # vs)"
proof -
  let ?ys = "us @ a # b # vs" and ?zs = "us @ b # a # vs"
  note ap = adjacent_positions[OF d]
  have ab: "a \<noteq> b" "a \<in> set xs" "b \<in> set xs" using d s by auto
  then have pne: "position xs a \<noteq> position xs b" using position_inj by metis
  show "position xs a < position xs b \<Longrightarrow> (a, b) \<notin> inversion_set xs ?ys"
    by (simp add: inversion_set_def ap)
  show "\<not> position xs a < position xs b \<Longrightarrow> (b, a) \<in> inversion_set xs ?ys"
    using ab pne by (simp add: inversion_set_def ap)
  have other: "(x, y) \<in> inversion_set xs ?zs \<longleftrightarrow> (x, y) \<in> inversion_set xs ?ys"
    if "(x, y) \<noteq> (a, b)" "(x, y) \<noteq> (b, a)" for x y
  proof (cases "x \<in> set xs \<and> y \<in> set xs")
    case False
    then show ?thesis by (auto simp: inversion_set_def)
  next
    case True
    then have "x \<in> set ?ys" "y \<in> set ?ys" using s by auto
    from adjacent_order_kept[OF d this that] show ?thesis
      by (simp add: inversion_set_def)
  qed
  have iab: "(a, b) \<in> inversion_set xs ?zs \<longleftrightarrow> position xs a < position xs b"
    using ab by (simp add: inversion_set_def ap)
  have iba: "(b, a) \<notin> inversion_set xs ?zs"
    by (simp add: inversion_set_def ap)
  show "inversion_set xs ?zs =
           (if position xs a < position xs b
            then insert (a, b) (inversion_set xs ?ys)
            else inversion_set xs ?ys - {(b, a)})"
  proof (cases "position xs a < position xs b")
    case True
    have "p \<in> inversion_set xs ?zs \<longleftrightarrow> p \<in> insert (a, b) (inversion_set xs ?ys)" for p
    proof -
      obtain x y where p: "p = (x, y)" by (cases p)
      consider "(x, y) = (a, b)" | "(x, y) = (b, a)" | "(x, y) \<noteq> (a, b)" "(x, y) \<noteq> (b, a)"
        by blast
      then show ?thesis
      proof cases
        case 1
        then show ?thesis using iab True by (simp add: p)
      next
        case 2
        then show ?thesis using iba True ab pne
          by (simp add: p inversion_set_def ap)
      next
        case 3
        then show ?thesis using other[OF 3] by (auto simp: p)
      qed
    qed
    with True show ?thesis by auto
  next
    case False
    have "p \<in> inversion_set xs ?zs \<longleftrightarrow> p \<in> inversion_set xs ?ys - {(b, a)}" for p
    proof -
      obtain x y where p: "p = (x, y)" by (cases p)
      consider "(x, y) = (a, b)" | "(x, y) = (b, a)" | "(x, y) \<noteq> (a, b)" "(x, y) \<noteq> (b, a)"
        by blast
      then show ?thesis
      proof cases
        case 1
        then show ?thesis using iab False ab by (simp add: p inversion_set_def ap)
      next
        case 2
        then show ?thesis using iba by (simp add: p)
      next
        case 3
        then show ?thesis using other[OF 3] 3 by (auto simp: p)
      qed
    qed
    with False show ?thesis by auto
  qed
qed

lemma adjacent_transposition_flips:
  assumes dx: "distinct xs" and d: "distinct (us @ a # b # vs)"
    and s: "set xs = set (us @ a # b # vs)"
  shows "is_even_permutation xs (us @ a # b # vs) = Inr p \<Longrightarrow>
         is_even_permutation xs (us @ b # a # vs) = Inr (\<not> p)"
proof -
  let ?ys = "us @ a # b # vs" and ?zs = "us @ b # a # vs"
  assume "is_even_permutation xs ?ys = Inr p"
  then have p: "p = even (card (inversion_set xs ?ys))"
    by (auto simp: is_even_permutation_def length_inversions[OF dx] split: if_splits)
  have dz: "distinct ?zs" and sz: "set xs = set ?zs" using d s by auto
  note ai = adjacent_inversion_set[OF dx d s]
  note fin = finite_inversion_set[of xs ?ys]
  have "even (card (inversion_set xs ?zs)) = (\<not> even (card (inversion_set xs ?ys)))"
  proof (cases "position xs a < position xs b")
    case True
    with ai(1) ai(2)[OF True] fin show ?thesis by simp
  next
    case False
    from ai(3)[OF False] fin have "card (inversion_set xs ?ys) > 0"
      by (auto simp: card_gt_0_iff)
    moreover have "card (inversion_set xs ?ys - {(b, a)}) = card (inversion_set xs ?ys) - 1"
      using ai(3)[OF False] fin by simp
    ultimately show ?thesis using ai(1) False by (simp add: even_diff_nat)
  qed
  then show ?thesis
    using dx dz sz by (simp add: is_even_permutation_def length_inversions[OF dx] p)
qed

end
